theory Spec2Isabelle
  imports Complex_Main "HOL-Library.Word"
begin

unbundle bit_operations_syntax

section \<open>The game client\<close>

text \<open>
  The members of \<^verbatim>\<open>CGameClient\<close> (GameClient.h) that the modelled functions read or
  write. The last full save state is a vector of 32-bit words, the rewind buffer a deque
  of sparse XOR deltas: a list, front first and back last. A \<^verbatim>\<open>size_t\<close> index or
  count is a \<open>nat\<close>. A \<^verbatim>\<open>double\<close> is the real number it stands for (a core reports
  finite rates; infinities and NaN are not modelled). The numbers of the regions are in
  libretro.h, which is not among the sources: a region is one of the two names
  \<^verbatim>\<open>OpenFile\<close> has a case for, or another number, as the initial \<^verbatim>\<open>-1\<close>.

  Two fields are not members of the class. \<open>unserialized\<close> records every call
  \<^verbatim>\<open>m_dll.retro_unserialize(data, size)\<close> with the words handed to the core and the
  size argument, oldest call first. \<open>logged\<close> records the level of every
  \<^verbatim>\<open>CLog::Log\<close> call of the rewind functions.
\<close>

type_synonym DeltaPair = "nat \<times> 32 word"

type_synonym DeltaPairVector = "DeltaPair list"

datatype log_level = LOGDEBUG | LOGINFO | LOGNOTICE | LOGWARNING | LOGERROR

datatype retro_region = RETRO_REGION_NTSC | RETRO_REGION_PAL | OTHER_REGION int

record game_client =
  m_bIsInited :: bool
  m_bIsPlaying :: bool
  m_validExtensions :: "string list"
  m_bAllowVFS :: bool
  m_frameRate :: real
  m_sampleRate :: real
  m_region :: retro_region
  m_rewindSupported :: bool
  m_rewindMaxFrames :: nat
  m_serializeSize :: nat
  m_lastSaveState :: "32 word list"
  m_rewindBuffer :: "DeltaPairVector list"
  unserialized :: "(32 word list \<times> nat) list"
  logged :: "log_level list"

text \<open>
  The core is foreign code. One call \<^verbatim>\<open>retro_serialize(buffer, size)\<close> is the pair of its
  return value and the words it wrote from the start of the buffer; the words of the
  buffer it did not reach keep their value, and a core cannot make the vector longer.
\<close>

type_synonym serialize_reply = "bool \<times> 32 word list"

section \<open>The rewind engine\<close>

definition overwrite :: "'a list \<Rightarrow> 'a list \<Rightarrow> 'a list" where
  "overwrite buf ws = take (length buf) ws @ drop (length ws) buf"

text \<open>
  The scan of \<^verbatim>\<open>AppendStateDelta\<close>:
  \<^verbatim>\<open>for (i = 0; i < stateBufferSize; i++) { xor_val = m_lastSaveState[i] ^ stateBuffer[i];
       if (xor_val) buffer.push_back(DeltaPair(i, xor_val)); }\<close>
\<close>

function delta_scan ::
  "32 word list \<Rightarrow> 32 word list \<Rightarrow> nat \<Rightarrow> nat \<Rightarrow> DeltaPairVector \<Rightarrow> DeltaPairVector" where
  "delta_scan lastSave stateBuffer i n buffer =
     (if i < n then
        (let xor_val = (lastSave ! i) XOR (stateBuffer ! i)
         in delta_scan lastSave stateBuffer (Suc i) n
              (if xor_val \<noteq> 0 then buffer @ [(i, xor_val)] else buffer))
      else buffer)"
  by pat_completeness auto
termination
  by (relation "measure (\<lambda>(lastSave, stateBuffer, i, n, buffer). n - i)") auto

text \<open>
  \<^verbatim>\<open>while (m_rewindBuffer.size() > m_rewindMaxFrames) m_rewindBuffer.pop_front();\<close>
\<close>

function evict_front :: "nat \<Rightarrow> 'a list \<Rightarrow> 'a list" where
  "evict_front maxFrames q =
     (if length q > maxFrames then evict_front maxFrames (tl q) else q)"
  by pat_completeness auto
termination
  by (relation "measure (\<lambda>(maxFrames, q). length q)") auto

definition AppendStateDelta :: "serialize_reply \<Rightarrow> game_client \<Rightarrow> game_client" where
  "AppendStateDelta reply gc =
     (if \<not> m_rewindSupported gc then gc
      else
        let stateBuffer = overwrite (replicate (length (m_lastSaveState gc)) 0) (snd reply);
            success = fst reply
        in if \<not> success then gc\<lparr>logged := logged gc @ [LOGERROR]\<rparr>
           else
             let buffer = delta_scan (m_lastSaveState gc) stateBuffer 0 (length stateBuffer) []
             in gc\<lparr>m_lastSaveState := stateBuffer,
                   m_rewindBuffer :=
                     evict_front (m_rewindMaxFrames gc) (m_rewindBuffer gc @ [buffer])\<rparr>)"

text \<open>
  The inner loop of \<^verbatim>\<open>RewindFrames\<close>:
  \<^verbatim>\<open>for (i = 0; i < bufferSize; i++) m_lastSaveState[buffer[i].first] ^= buffer[i].second;\<close>
  \<^verbatim>\<open>std::vector::operator[]\<close> does not check its index: a write at or past the end is
  undefined behaviour, which the model reports as \<open>None\<close>.
\<close>

fun apply_pairs :: "DeltaPairVector \<Rightarrow> 32 word list \<Rightarrow> 32 word list option" where
  "apply_pairs [] st = Some st"
| "apply_pairs ((i, v) # ps) st =
     (if i < length st then apply_pairs ps (st[i := (st ! i) XOR v]) else None)"

text \<open>
  \<^verbatim>\<open>while (frames > 0 && m_rewindBuffer.size() > 0) { ...; frames_rewound++; frames--;
       m_rewindBuffer.pop_back(); }\<close>
  The counter \<^verbatim>\<open>frames_rewound\<close> is an \<^verbatim>\<open>int\<close> that never passes the initial value of
  \<^verbatim>\<open>frames\<close>, so it does not overflow and is modelled as an unbounded integer.
\<close>

function rewind_loop ::
  "int \<Rightarrow> int \<Rightarrow> 32 word list \<Rightarrow> DeltaPairVector list
     \<Rightarrow> (int \<times> 32 word list \<times> DeltaPairVector list) option" where
  "rewind_loop frames frames_rewound st q =
     (if frames > 0 \<and> length q > 0 then
        (case apply_pairs (last q) st of
           None \<Rightarrow> None
         | Some st' \<Rightarrow> rewind_loop (frames - 1) (frames_rewound + 1) st' (butlast q))
      else Some (frames_rewound, st, q))"
  by pat_completeness auto
termination
  by (relation "measure (\<lambda>(frames, frames_rewound, st, q). length q)") auto

definition RewindFrames :: "int \<Rightarrow> game_client \<Rightarrow> (int \<times> game_client) option" where
  "RewindFrames frames gc =
     (case rewind_loop frames 0 (m_lastSaveState gc) (m_rewindBuffer gc) of
        None \<Rightarrow> None
      | Some (frames_rewound, st, q) \<Rightarrow>
          (let gc' = gc\<lparr>m_lastSaveState := st, m_rewindBuffer := q\<rparr>
           in Some (frames_rewound,
                if frames_rewound \<noteq> 0
                then gc'\<lparr>unserialized := unserialized gc' @ [(st, m_serializeSize gc')]\<rparr>
                else gc')))"

section \<open>Strings and file extensions\<close>

text \<open>
  Modelled from the spec: \<^verbatim>\<open>CStdString\<close> (StdString.h) and \<^verbatim>\<open>StringUtils\<close> are not among the
  sources. \<^verbatim>\<open>ToLower\<close> lowers the ASCII capitals, so that only lower-case extensions are
  stored. \<^verbatim>\<open>Equals\<close> compares without regard to case, as extension matching does.
  \<^verbatim>\<open>SplitString(s, "|", v)\<close> cuts the pipe-separated list at every delimiter and keeps
  empty pieces, and \<^verbatim>\<open>JoinString\<close> puts the delimiter between the pieces.
\<close>

definition tolower :: "char \<Rightarrow> char" where
  "tolower c =
     (if 65 \<le> (of_char c :: nat) \<and> (of_char c :: nat) \<le> 90
      then char_of (of_char c + (32 :: nat)) else c)"

definition ToLower :: "string \<Rightarrow> string" where
  "ToLower s = map tolower s"

definition Equals :: "string \<Rightarrow> string \<Rightarrow> bool" where
  "Equals s t = (ToLower s = ToLower t)"

fun SplitString :: "string \<Rightarrow> char \<Rightarrow> string list" where
  "SplitString [] delimiter = [[]]"
| "SplitString (c # cs) delimiter =
     (if c = delimiter then [] # SplitString cs delimiter
      else (case SplitString cs delimiter of
              [] \<Rightarrow> [[c]]
            | piece # pieces \<Rightarrow> (c # piece) # pieces))"

fun JoinString :: "string list \<Rightarrow> string \<Rightarrow> string" where
  "JoinString [] delimiter = []"
| "JoinString [s] delimiter = s"
| "JoinString (s # t # ss) delimiter = s @ delimiter @ JoinString (t # ss) delimiter"

text \<open>
  \<^verbatim>\<open>CGameClient::SetExtensions\<close>: empty pieces are skipped, \<^verbatim>\<open>zip\<close> is skipped unless
  \<^verbatim>\<open>g_advancedSettings.m_bAllowZip\<close>, every other piece is lowered, gets a leading dot and
  is stored once. \<open>valid\<close> is \<^verbatim>\<open>m_validExtensions\<close>.
\<close>

fun SetExtensions_loop :: "bool \<Rightarrow> string list \<Rightarrow> string list \<Rightarrow> string list" where
  "SetExtensions_loop allowZip [] valid = valid"
| "SetExtensions_loop allowZip (it # rest) valid =
     (if it = [] then SetExtensions_loop allowZip rest valid
      else if Equals it ''zip'' \<and> \<not> allowZip then SetExtensions_loop allowZip rest valid
      else
        (let ext = ''.'' @ ToLower it
         in SetExtensions_loop allowZip rest
              (if ext \<notin> set valid then valid @ [ext] else valid)))"

definition SetExtensions :: "bool \<Rightarrow> string \<Rightarrow> string list" where
  "SetExtensions allowZip strExtensionList =
     SetExtensions_loop allowZip (SplitString strExtensionList CHR ''|'') []"

text \<open>
  \<^verbatim>\<open>CGameClient::IsExtensionValid\<close>: an empty list accepts everything; otherwise the
  lowered argument must be an element of \<^verbatim>\<open>m_validExtensions\<close> as it stands.
\<close>

definition IsExtensionValid :: "string list \<Rightarrow> string \<Rightarrow> bool" where
  "IsExtensionValid validExtensions ext =
     (if validExtensions = [] then True else ToLower ext \<in> set validExtensions)"

section \<open>Double arithmetic\<close>

text \<open>
  The host computes in IEEE binary64 with rounding to nearest, ties to even. A finite
  double is the real number it stands for; \<open>round_to_double\<close> rounds a real to 53
  significant bits (exponent range unbounded: overflow and subnormal numbers are not
  modelled), so that a product or quotient of doubles is the rounded exact result.
  \<open>binary_exponent x\<close> is the \<open>e\<close> with \<open>2 ^ e \<le> \<bar>x\<bar> < 2 ^ (e + 1)\<close>.

  A conversion from \<^verbatim>\<open>double\<close> to an integer type truncates toward zero and is undefined
  when the truncated value does not fit the type; \<^verbatim>\<open>size_t\<close> has 64 bits.
\<close>

function bit_length :: "nat \<Rightarrow> nat" where
  "bit_length n = (if n = 0 then 0 else Suc (bit_length (n div 2)))"
  by pat_completeness auto
termination
  by (relation "measure (\<lambda>n. n)") auto

definition pow2 :: "int \<Rightarrow> real" where
  "pow2 e = (if 0 \<le> e then 2 ^ nat e else 1 / 2 ^ nat (- e))"

definition binary_exponent :: "real \<Rightarrow> int" where
  "binary_exponent x =
     (if 1 \<le> \<bar>x\<bar> then int (bit_length (nat \<lfloor>\<bar>x\<bar>\<rfloor>)) - 1
      else - int (bit_length (nat (\<lceil>1 / \<bar>x\<bar>\<rceil> - 1))))"

definition round_half_even :: "real \<Rightarrow> int" where
  "round_half_even x =
     (let f = \<lfloor>x\<rfloor>; r = x - of_int f
      in if r < 1 / 2 then f else if 1 / 2 < r then f + 1 else if even f then f else f + 1)"

definition round_to_double :: "real \<Rightarrow> real" where
  "round_to_double x =
     (if x = 0 then 0
      else
        let ulp = pow2 (binary_exponent x - 52)
        in of_int (round_half_even (x / ulp)) * ulp)"

definition double_mul :: "real \<Rightarrow> real \<Rightarrow> real" where
  "double_mul x y = round_to_double (x * y)"

definition double_div :: "real \<Rightarrow> real \<Rightarrow> real" where
  "double_div x y = round_to_double (x / y)"

definition truncate_double :: "real \<Rightarrow> int" where
  "truncate_double x = (if 0 \<le> x then \<lfloor>x\<rfloor> else \<lceil>x\<rceil>)"

definition double_to_size_t :: "real \<Rightarrow> nat option" where
  "double_to_size_t x =
     (let t = truncate_double x in if 0 \<le> t \<and> t < 2 ^ 64 then Some (nat t) else None)"

section \<open>Files, the host and the core\<close>

text \<open>
  \<^verbatim>\<open>CFileItem\<close>, \<^verbatim>\<open>CURL\<close>, \<^verbatim>\<open>URIUtils\<close>, \<^verbatim>\<open>CFile\<close> and \<^verbatim>\<open>CDirectory\<close> are not among the
  sources, so a file is the record of what the strategies ask about it:
  \<^item> \<open>GetPath\<close>: \<^verbatim>\<open>file.GetPath()\<close>;
  \<^item> \<open>GetProtocol\<close>: \<^verbatim>\<open>file.GetAsUrl().GetProtocol()\<close>;
  \<^item> \<open>GetExtension\<close>: \<^verbatim>\<open>URIUtils::GetExtension(file.GetPath())\<close>;
  \<^item> \<open>IsInZIP\<close>: \<^verbatim>\<open>URIUtils::IsInZIP(file.GetPath())\<close>;
  \<^item> \<open>parentURL_\<close>...: the file name, protocol and host name of
    \<^verbatim>\<open>CURL parentURL(URIUtils::GetParentPath(file.GetPath()))\<close>;
  \<^item> \<open>gameclient_property\<close>: \<^verbatim>\<open>file.GetProperty("gameclient")\<close>, empty when not set.

  The host gives the add-on's \<^verbatim>\<open>ID()\<close>, the advanced setting \<^verbatim>\<open>m_bPreferVFS\<close>, and the
  file system:
  \<open>vfs_Open path\<close> is \<open>None\<close> when \<^verbatim>\<open>CFile::Open\<close> fails, and otherwise tells
  \<^verbatim>\<open>GetLength()\<close>, the value that \<^verbatim>\<open>Read(data, length)\<close> returns, and the bytes read.
  \<open>new_succeeds n\<close> says whether the heap has the \<open>n\<close> bytes that
  \<^verbatim>\<open>new unsigned char[n]\<close> asks for. \<open>GetDirectory zipPath mask\<close> is the listing that
  \<^verbatim>\<open>CDirectory::GetDirectory\<close> gives for the archive URL of \<open>zipPath\<close> under the mask,
  \<open>None\<close> when it fails.

  The core is foreign code: \<open>retro_load_game n info\<close> is what the core answers to the
  call of \<^verbatim>\<open>retro_load_game\<close> that follows \<open>n\<close> earlier ones in the same
  \<^verbatim>\<open>OpenFile\<close>; the other fields are what it reports after a game was loaded.
\<close>

record file_item =
  GetPath :: string
  GetProtocol :: string
  GetExtension :: string
  IsInZIP :: bool
  parentURL_GetFileName :: string
  parentURL_GetProtocol :: string
  parentURL_GetHostName :: string
  gameclient_property :: string

record vfs_file =
  GetLength :: int
  Read :: int
  contents :: "8 word list"

record host =
  ID :: string
  m_bPreferVFS :: bool
  vfs_Open :: "string \<Rightarrow> vfs_file option"
  new_succeeds :: "nat \<Rightarrow> bool"
  GetDirectory :: "string \<Rightarrow> string \<Rightarrow> string list option"

record retro_game_info =
  info_path :: "string option"
  info_data :: "8 word list option"
  info_size :: nat

record core =
  retro_load_game :: "nat \<Rightarrow> retro_game_info \<Rightarrow> bool"
  timing_fps :: real
  timing_sample_rate :: real
  retro_serialize_size :: nat
  retro_serialize :: serialize_reply
  retro_get_region :: retro_region

section \<open>Load strategies\<close>

text \<open>
  A strategy's \<^verbatim>\<open>CanLoad\<close> returns \<open>Some (m_path, m_useVfs)\<close> where the C++ returns true
  after setting the two members, and \<open>None\<close> where it returns false. Log lines of the
  strategies and of \<^verbatim>\<open>OpenFile\<close> are left out.

  \<^verbatim>\<open>IRetroStrategy::GetGameInfo\<close>: a path is handed over as it is; a VFS file is opened and
  read. The length test compares an \<^verbatim>\<open>int64_t\<close> with \<^verbatim>\<open>numeric_limits<size_t>::max()\<close>,
  which converts the length to \<^verbatim>\<open>size_t\<close> first, so that of the negative lengths only
  \<open>-1\<close> is refused.

  \<^verbatim>\<open>data = new unsigned char[(size_t)length]\<close> does not return a null pointer: where the
  memory is not to be had it throws \<^verbatim>\<open>std::bad_alloc\<close>, and it always does so for
  \<open>2 ^ 63\<close> bytes or more, which no object can have (every negative length is such a
  size). Neither \<^verbatim>\<open>GetGameInfo\<close> nor \<^verbatim>\<open>OpenFile\<close> catches the exception. The
  \<^verbatim>\<open>data &&\<close> of the test that follows is therefore always true, and what the test asks
  is whether \<^verbatim>\<open>Read\<close> returned the length.

  The result of \<open>GetGameInfo\<close> is \<open>Inl bad_alloc\<close> where the exception leaves the function,
  \<open>Inr None\<close> where it returns false, and \<open>Inr (Some info)\<close> where it returns true.
\<close>

datatype strategy = CStrategyUseHD | CStrategyUseParentZip | CStrategyUseVFS | CStrategyEnterZip

datatype exception = bad_alloc

definition GetGameInfo ::
  "host \<Rightarrow> string \<times> bool \<Rightarrow> exception + retro_game_info option" where
  "GetGameInfo h s =
     (case s of (m_path, m_useVfs) \<Rightarrow>
        if \<not> m_useVfs
        then Inr (Some \<lparr>info_path = Some m_path, info_data = None, info_size = 0\<rparr>)
        else
          (case vfs_Open h m_path of
             None \<Rightarrow> Inr None
           | Some vfsFile \<Rightarrow>
               if GetLength vfsFile = 0 \<or> GetLength vfsFile mod 2 ^ 64 \<ge> 2 ^ 64 - 1
               then Inr None
               else if 2 ^ 63 \<le> nat (GetLength vfsFile mod 2 ^ 64)
                     \<or> \<not> new_succeeds h (nat (GetLength vfsFile mod 2 ^ 64))
               then Inl bad_alloc
               else if Read vfsFile \<noteq> GetLength vfsFile then Inr None
               else Inr (Some \<lparr>info_path = None, info_data = Some (contents vfsFile),
                                 info_size = nat (GetLength vfsFile mod 2 ^ 64)\<rparr>)))"

text \<open>The four \<^verbatim>\<open>CanLoad\<close> functions, check by check.\<close>

definition CStrategyUseHD_CanLoad :: "game_client \<Rightarrow> file_item \<Rightarrow> (string \<times> bool) option" where
  "CStrategyUseHD_CanLoad gc file =
     (if GetProtocol file \<noteq> [] then None
      else if \<not> IsExtensionValid (m_validExtensions gc) (GetExtension file) then None
      else Some (GetPath file, False))"

definition CStrategyUseVFS_CanLoad :: "game_client \<Rightarrow> file_item \<Rightarrow> (string \<times> bool) option" where
  "CStrategyUseVFS_CanLoad gc file =
     (if \<not> m_bAllowVFS gc then None
      else if \<not> IsExtensionValid (m_validExtensions gc) (GetExtension file) then None
      else Some (GetPath file, True))"

definition CStrategyUseParentZip_CanLoad ::
  "game_client \<Rightarrow> file_item \<Rightarrow> (string \<times> bool) option" where
  "CStrategyUseParentZip_CanLoad gc file =
     (if \<not> IsInZIP file then None
      else if \<not> IsExtensionValid (m_validExtensions gc) ''zip'' then None
      else if parentURL_GetFileName file \<noteq> [] then None
      else if parentURL_GetProtocol file \<noteq> [] then None
      else Some (parentURL_GetHostName file, False))"

text \<open>
  \<^verbatim>\<open>GetEffectiveRomPath\<close> returns false with the zip's own path unless the path ends in
  \<^verbatim>\<open>.zip\<close> and the listing of the archive has an entry, the first of which it returns.
  \<open>zipExtension\<close> is \<^verbatim>\<open>URIUtils::GetExtension(zipPath)\<close>.
\<close>

definition GetEffectiveRomPath :: "host \<Rightarrow> string \<Rightarrow> string \<Rightarrow> string list \<Rightarrow> bool \<times> string" where
  "GetEffectiveRomPath h zipPath zipExtension validExts =
     (if \<not> Equals zipExtension ''.zip'' then (False, zipPath)
      else
        (case GetDirectory h zipPath (JoinString validExts ''|'') of
           Some (item # itemList) \<Rightarrow> (True, item)
         | _ \<Rightarrow> (False, zipPath)))"

definition CStrategyEnterZip_CanLoad ::
  "host \<Rightarrow> game_client \<Rightarrow> file_item \<Rightarrow> (string \<times> bool) option" where
  "CStrategyEnterZip_CanLoad h gc file =
     (if \<not> Equals (GetExtension file) ''.zip'' then None
      else if \<not> m_bAllowVFS gc then None
      else
        (case GetEffectiveRomPath h (GetPath file) (GetExtension file) (m_validExtensions gc) of
           (found, internalFile) \<Rightarrow> if \<not> found then None else Some (internalFile, True)))"

fun CanLoad :: "host \<Rightarrow> game_client \<Rightarrow> strategy \<Rightarrow> file_item \<Rightarrow> (string \<times> bool) option" where
  "CanLoad h gc CStrategyUseHD file = CStrategyUseHD_CanLoad gc file"
| "CanLoad h gc CStrategyUseParentZip file = CStrategyUseParentZip_CanLoad gc file"
| "CanLoad h gc CStrategyUseVFS file = CStrategyUseVFS_CanLoad gc file"
| "CanLoad h gc CStrategyEnterZip file = CStrategyEnterZip_CanLoad h gc file"

text \<open>
  \<^verbatim>\<open>IRetroStrategy *strategies[] = {&s1, &s2, &s3, &s4};\<close> and, under
  \<^verbatim>\<open>m_bPreferVFS\<close>, \<^verbatim>\<open>std::swap(strategies[0], strategies[2]);
  std::swap(strategies[1], strategies[3]);\<close>
\<close>

definition swap :: "nat \<Rightarrow> nat \<Rightarrow> 'a list \<Rightarrow> 'a list" where
  "swap i j xs = xs[i := xs ! j, j := xs ! i]"

definition strategies :: "bool \<Rightarrow> strategy list" where
  "strategies preferVFS =
     (let s = [CStrategyUseHD, CStrategyUseParentZip, CStrategyUseVFS, CStrategyEnterZip]
      in if preferVFS then swap 1 3 (swap 0 2 s) else s)"

text \<open>
  The loop over the strategies. Each pass is recorded as an attempt: \<^verbatim>\<open>CanLoad\<close> was
  false; \<^verbatim>\<open>GetGameInfo\<close> was false; \<^verbatim>\<open>GetGameInfo\<close> threw, which ends the loop with
  the exception; the core was called with the game info and returned false; or it
  returned true, which ends the loop. \<open>load_calls\<close> counts the calls of
  \<^verbatim>\<open>retro_load_game\<close> among attempts. The loop gives \<open>Inr success\<close> with the value of
  the variable \<^verbatim>\<open>success\<close> where control leaves it, and \<open>Inl e\<close> where the exception
  \<open>e\<close> does.
\<close>

datatype attempt =
    CannotLoad strategy
  | NoGameInfo strategy
  | Threw strategy exception
  | LoadFailed strategy retro_game_info
  | Loaded strategy retro_game_info

fun attempt_strategy :: "attempt \<Rightarrow> strategy" where
  "attempt_strategy (CannotLoad s) = s"
| "attempt_strategy (NoGameInfo s) = s"
| "attempt_strategy (Threw s e) = s"
| "attempt_strategy (LoadFailed s info) = s"
| "attempt_strategy (Loaded s info) = s"

fun load_calls :: "attempt list \<Rightarrow> nat" where
  "load_calls [] = 0"
| "load_calls (LoadFailed s info # as) = Suc (load_calls as)"
| "load_calls (Loaded s info # as) = Suc (load_calls as)"
| "load_calls (a # as) = load_calls as"

fun load_loop ::
  "host \<Rightarrow> core \<Rightarrow> game_client \<Rightarrow> file_item \<Rightarrow> strategy list \<Rightarrow> attempt list
     \<Rightarrow> (exception + bool) \<times> attempt list" where
  "load_loop h c gc file [] tried = (Inr False, tried)"
| "load_loop h c gc file (s # rest) tried =
     (case CanLoad h gc s file of
        None \<Rightarrow> load_loop h c gc file rest (tried @ [CannotLoad s])
      | Some found \<Rightarrow>
          (case GetGameInfo h found of
             Inl e \<Rightarrow> (Inl e, tried @ [Threw s e])
           | Inr None \<Rightarrow> load_loop h c gc file rest (tried @ [NoGameInfo s])
           | Inr (Some info) \<Rightarrow>
               if retro_load_game c (load_calls tried) info
               then (Inr True, tried @ [Loaded s info])
               else load_loop h c gc file rest (tried @ [LoadFailed s info])))"

section \<open>OpenFile\<close>

text \<open>
  \<^verbatim>\<open>CGameClient::OpenFile\<close>, for a client whose library is loaded. The result is \<open>None\<close>
  when \<^verbatim>\<open>OpenFile\<close> does not return a value: an exception of the strategy loop leaves
  it, or the conversion of \<^verbatim>\<open>60.0 * m_frameRate\<close> to \<^verbatim>\<open>size_t\<close> is undefined. Otherwise
  it is the return value, the client afterwards and the attempts of the strategy loop.
  The standard containers are taken to find their memory.
  \<^verbatim>\<open>m_lastSaveState.resize(n)\<close> keeps the first \<open>n\<close> words and fills up with zeros; the
  return value of the first \<^verbatim>\<open>retro_serialize\<close> is not looked at. Setting the default
  pixel format and keyboard callback, \<^verbatim>\<open>retro_init\<close>, installing the callbacks and
  \<^verbatim>\<open>SetDevice\<close> change none of the modelled members.
\<close>

definition resize :: "nat \<Rightarrow> 32 word list \<Rightarrow> 32 word list" where
  "resize n v = take n v @ replicate (n - length v) 0"

definition OpenFile ::
  "host \<Rightarrow> core \<Rightarrow> file_item \<Rightarrow> game_client \<Rightarrow> (bool \<times> game_client \<times> attempt list) option" where
  "OpenFile h c file gc =
     (if gameclient_property file \<noteq> [] \<and> gameclient_property file \<noteq> ID h
      then Some (False, gc, [])
      else
        let gc1 = gc\<lparr>m_bIsInited := True\<rparr>;
            (ended, tried) = load_loop h c gc1 file (strategies (m_bPreferVFS h)) []
        in (case ended of
              Inl e \<Rightarrow> None
            | Inr success \<Rightarrow>
                if \<not> success then Some (False, gc1, tried)
                else
                  let gc2 = gc1\<lparr>m_bIsPlaying := True, m_frameRate := timing_fps c,
                                  m_sampleRate := timing_sample_rate c, m_rewindBuffer := []\<rparr>;
                      state_size = retro_serialize_size c;
                      region = retro_get_region c
                  in if state_size \<noteq> 0
                     then
                       (case double_to_size_t (double_mul 60 (m_frameRate gc2)) of
                          None \<Rightarrow> None
                        | Some maxFrames \<Rightarrow>
                            Some (True,
                              gc2\<lparr>m_rewindSupported := True,
                                   m_rewindMaxFrames := maxFrames,
                                   m_serializeSize := state_size,
                                   m_lastSaveState :=
                                     overwrite
                                       (resize ((state_size + 4 - 1) div 4) (m_lastSaveState gc2))
                                       (snd (retro_serialize c)),
                                   m_region :=
                                     (case region of
                                        RETRO_REGION_NTSC \<Rightarrow> RETRO_REGION_NTSC
                                      | RETRO_REGION_PAL \<Rightarrow> RETRO_REGION_PAL
                                      | OTHER_REGION n \<Rightarrow> m_region gc2)\<rparr>,
                              tried))
                     else
                       Some (True,
                         gc2\<lparr>m_region :=
                               (case region of
                                  RETRO_REGION_NTSC \<Rightarrow> RETRO_REGION_NTSC
                                | RETRO_REGION_PAL \<Rightarrow> RETRO_REGION_PAL
                                | OTHER_REGION n \<Rightarrow> m_region gc2)\<rparr>,
                         tried)))"

section \<open>The start of CRetroPlayer::Process\<close>

text \<open>
  The rates with which \<^verbatim>\<open>CRetroPlayer::Process\<close> starts the audio and the video thread:
  \<open>audio_GoForth\<close> is the argument of \<^verbatim>\<open>m_audio.GoForth\<close>, \<open>None\<close> when audio is not
  started, and \<open>video_GoForth\<close> is the argument of \<^verbatim>\<open>m_video.GoForth\<close>.
\<close>

record process_start =
  audio_GoForth :: "int option"
  video_GoForth :: real

definition Process :: "game_client \<Rightarrow> process_start" where
  "Process gc =
     (let framerate0 = m_frameRate gc;
          framerate = (if framerate0 < 5 \<or> framerate0 > 100 then 60 else framerate0);
          samplerate = m_sampleRate gc
      in if samplerate < 1 \<or> samplerate > 384000
         then \<lparr>audio_GoForth = None, video_GoForth = framerate\<rparr>
         else
           let newSamplerate = truncate_double samplerate
           in \<lparr>audio_GoForth = Some newSamplerate,
               video_GoForth =
                 (if of_int newSamplerate \<noteq> samplerate
                  then double_mul framerate (double_div (of_int newSamplerate) samplerate)
                  else framerate)\<rparr>)"

section \<open>The environment callback\<close>

text \<open>
  The numbers of the queries and of the pixel formats are in libretro.h, which is not
  among the sources: a query is one of the twelve names \<^verbatim>\<open>EnvironmentCallback\<close> has a case
  for, or another number; a pixel format is one of the three names or another number.

  \<^verbatim>\<open>data\<close> is a \<^verbatim>\<open>void *\<close>: \<open>None\<close> is the null pointer, and \<open>Some\<close> says what the memory
  it points to holds. A \<^verbatim>\<open>char *\<close> or function pointer inside that memory is again an
  option. An array is the list of its elements; the memory behind it is not the core's
  to read.
\<close>

datatype retro_environment =
    RETRO_ENVIRONMENT_SET_ROTATION
  | RETRO_ENVIRONMENT_GET_OVERSCAN
  | RETRO_ENVIRONMENT_GET_CAN_DUPE
  | RETRO_ENVIRONMENT_GET_VARIABLE
  | RETRO_ENVIRONMENT_SET_VARIABLES
  | RETRO_ENVIRONMENT_SET_MESSAGE
  | RETRO_ENVIRONMENT_SHUTDOWN
  | RETRO_ENVIRONMENT_SET_PERFORMANCE_LEVEL
  | RETRO_ENVIRONMENT_GET_SYSTEM_DIRECTORY
  | RETRO_ENVIRONMENT_SET_PIXEL_FORMAT
  | RETRO_ENVIRONMENT_SET_INPUT_DESCRIPTORS
  | RETRO_ENVIRONMENT_SET_KEYBOARD_CALLBACK
  | OTHER_QUERY nat

datatype retro_pixel_format =
    RETRO_PIXEL_FORMAT_0RGB1555
  | RETRO_PIXEL_FORMAT_XRGB8888
  | RETRO_PIXEL_FORMAT_RGB565
  | OTHER_FORMAT int

record retro_variable =
  var_key :: "string option"
  var_value :: "string option"

record retro_message =
  message_msg :: "string option"
  message_frames :: "32 word"

record retro_input_descriptor =
  desc_port :: "32 word"
  desc_device :: "32 word"
  desc_index :: "32 word"
  desc_id :: "32 word"
  description :: "string option"

datatype pointee =
    Bool_at bool
  | Variable_at retro_variable
  | Variables_at "retro_variable list"
  | Message_at retro_message
  | Unsigned_at "32 word"
  | String_at "string option"
  | PixelFormat_at retro_pixel_format
  | InputDescriptors_at "retro_input_descriptor list"
  | KeyboardCallback_at "nat option"

text \<open>
  What a call does besides returning: the memory behind \<^verbatim>\<open>data\<close> afterwards, the calls
  of the two hooks that \<^verbatim>\<open>OpenFile\<close> installed and of
  \<^verbatim>\<open>g_application.StopPlaying()\<close>, and the levels of the lines it logged. A call returns, or
  it reads or writes through a null pointer, or it reads memory that does not hold what
  the query's cast says (another type, or past the end of an array without terminator).

  The host says whether the hooks \<^verbatim>\<open>_SetPixelFormat\<close> and \<^verbatim>\<open>_SetKeyboardCallback\<close> are set
  (they are null before the first \<^verbatim>\<open>OpenFile\<close>) and whether
  \<^verbatim>\<open>g_application.m_pPlayer && g_application.GetCurrentPlayer() == EPC_RETROPLAYER\<close>.
\<close>

record effects =
  data_after :: "pointee option"
  SetPixelFormat_calls :: "retro_pixel_format list"
  SetKeyboardCallback_calls :: "nat list"
  StopPlaying_calls :: nat
  env_logged :: "log_level list"

datatype outcome = Returned bool effects | NullDereference | InvalidRead

record environment_host =
  SetPixelFormat_installed :: bool
  SetKeyboardCallback_installed :: bool
  retroplayer_is_current :: bool

text \<open>
  \<open>untouched data\<close>: nothing done yet. \<open>Log level strings eff continue\<close> is a call of
  \<^verbatim>\<open>CLog::Log\<close> whose \<^verbatim>\<open>%s\<close> arguments are \<open>strings\<close>: formatting a null string reads
  through it.
\<close>

definition untouched :: "pointee option \<Rightarrow> effects" where
  "untouched data =
     \<lparr>data_after = data, SetPixelFormat_calls = [], SetKeyboardCallback_calls = [],
      StopPlaying_calls = 0, env_logged = []\<rparr>"

definition Log :: "log_level \<Rightarrow> string option list \<Rightarrow> effects \<Rightarrow> (effects \<Rightarrow> outcome) \<Rightarrow> outcome" where
  "Log level strings eff continue =
     (if None \<in> set strings then NullDereference
      else continue (eff\<lparr>env_logged := env_logged eff @ [level]\<rparr>))"

text \<open>
  \<^verbatim>\<open>while (vars && vars->key) { ...; vars++; }\<close> and the same loop over the input
  descriptors, which ends at a null \<^verbatim>\<open>description\<close>.
\<close>

fun notify_variables :: "retro_variable list \<Rightarrow> effects \<Rightarrow> outcome" where
  "notify_variables [] eff = InvalidRead"
| "notify_variables (v # vars) eff =
     (if var_key v = None then Returned True eff
      else if var_value v \<noteq> None
        then Log LOGINFO [var_key v, var_value v] eff (notify_variables vars)
        else Log LOGWARNING [var_key v] eff (notify_variables vars))"

fun notify_descriptors :: "retro_input_descriptor list \<Rightarrow> effects \<Rightarrow> outcome" where
  "notify_descriptors [] eff = InvalidRead"
| "notify_descriptors (d # descriptors) eff =
     (if description d = None then Returned True eff
      else Log LOGINFO [description d] eff (notify_descriptors descriptors))"

text \<open>
  \<^verbatim>\<open>CGameClient::EnvironmentCallback\<close>, case by case. The first test lets
  \<^verbatim>\<open>RETRO_ENVIRONMENT_SHUTDOWN\<close> and \<^verbatim>\<open>RETRO_ENVIRONMENT_GET_SYSTEM_DIRECTORY\<close> pass with a
  null \<^verbatim>\<open>data\<close>. \<^verbatim>\<open>strncmp("too_sexy_for", var->key, 12) == 0\<close> holds when the key starts
  with these twelve characters.
\<close>

definition EnvironmentCallback ::
  "environment_host \<Rightarrow> retro_environment \<Rightarrow> pointee option \<Rightarrow> outcome" where
  "EnvironmentCallback host cmd data =
     (if \<not> (cmd = RETRO_ENVIRONMENT_SHUTDOWN \<or> cmd = RETRO_ENVIRONMENT_GET_SYSTEM_DIRECTORY)
         \<and> data = None
      then Log LOGERROR [] (untouched data) (Returned False)
      else
        (case cmd of
           RETRO_ENVIRONMENT_GET_OVERSCAN \<Rightarrow>
             (case data of
                Some (Bool_at b) \<Rightarrow>
                  Log LOGINFO [] (untouched (Some (Bool_at False))) (Returned True)
              | Some other \<Rightarrow> InvalidRead
              | None \<Rightarrow> NullDereference)
         | RETRO_ENVIRONMENT_GET_CAN_DUPE \<Rightarrow>
             (case data of
                Some (Bool_at b) \<Rightarrow>
                  Log LOGINFO [] (untouched (Some (Bool_at True))) (Returned True)
              | Some other \<Rightarrow> InvalidRead
              | None \<Rightarrow> NullDereference)
         | RETRO_ENVIRONMENT_GET_VARIABLE \<Rightarrow>
             (case data of
                Some (Variable_at var) \<Rightarrow>
                  (if var_key var \<noteq> None \<and> var_value var \<noteq> None
                   then
                     (if take 12 (the (var_key var)) = ''too_sexy_for''
                      then Log LOGINFO [var_key var, Some ''my_shirt'']
                             (untouched (Some (Variable_at (var\<lparr>var_value := Some ''my_shirt''\<rparr>))))
                             (Returned True)
                      else Log LOGERROR [var_key var]
                             (untouched (Some (Variable_at (var\<lparr>var_value := None\<rparr>))))
                             (Returned True))
                   else Log LOGERROR []
                          (untouched (Some (Variable_at (var\<lparr>var_value := None\<rparr>))))
                          (Returned True))
              | Some other \<Rightarrow> InvalidRead
              | None \<Rightarrow> NullDereference)
         | RETRO_ENVIRONMENT_SET_VARIABLES \<Rightarrow>
             (case data of
                Some (Variables_at vars) \<Rightarrow>
                  (case vars of
                     [] \<Rightarrow> InvalidRead
                   | v # rest \<Rightarrow>
                       if var_key v = None
                       then Log LOGERROR [] (untouched data) (Returned True)
                       else notify_variables vars (untouched data))
              | Some other \<Rightarrow> InvalidRead
              | None \<Rightarrow> NullDereference)
         | RETRO_ENVIRONMENT_SET_MESSAGE \<Rightarrow>
             (case data of
                Some (Message_at m) \<Rightarrow>
                  (if message_msg m \<noteq> None \<and> message_frames m \<noteq> 0
                   then Log LOGINFO [message_msg m] (untouched data) (Returned True)
                   else Returned True (untouched data))
              | Some other \<Rightarrow> InvalidRead
              | None \<Rightarrow> NullDereference)
         | RETRO_ENVIRONMENT_SET_ROTATION \<Rightarrow>
             (case data of
                Some (Unsigned_at rotation) \<Rightarrow>
                  (if 0 \<le> rotation \<and> rotation \<le> 3
                   then Log LOGINFO [] (untouched data) (Returned True)
                   else Log LOGERROR [] (untouched data) (Returned True))
              | Some other \<Rightarrow> InvalidRead
              | None \<Rightarrow> NullDereference)
         | RETRO_ENVIRONMENT_SHUTDOWN \<Rightarrow>
             Log LOGINFO [] (untouched data)
               (\<lambda>eff. Returned True
                  (if retroplayer_is_current host
                   then eff\<lparr>StopPlaying_calls := Suc (StopPlaying_calls eff)\<rparr> else eff))
         | RETRO_ENVIRONMENT_SET_PERFORMANCE_LEVEL \<Rightarrow>
             (case data of
                Some (Unsigned_at performanceLevel) \<Rightarrow>
                  (if 0 \<le> performanceLevel \<and> performanceLevel \<le> 3
                   then Log LOGINFO [] (untouched data) (Returned True)
                   else if performanceLevel = 4
                   then Log LOGINFO [] (untouched data) (Returned True)
                   else Log LOGERROR [] (untouched data) (Returned True))
              | Some other \<Rightarrow> InvalidRead
              | None \<Rightarrow> NullDereference)
         | RETRO_ENVIRONMENT_GET_SYSTEM_DIRECTORY \<Rightarrow>
             (case data of
                Some (String_at s) \<Rightarrow>
                  Log LOGINFO [] (untouched (Some (String_at None))) (Returned True)
              | Some other \<Rightarrow> InvalidRead
              | None \<Rightarrow> NullDereference)
         | RETRO_ENVIRONMENT_SET_PIXEL_FORMAT \<Rightarrow>
             (case data of
                Some (PixelFormat_at pix_fmt) \<Rightarrow>
                  (let set_format =
                         Log LOGINFO [] (untouched data)
                           (\<lambda>eff. if SetPixelFormat_installed host
                                  then Returned True (eff\<lparr>SetPixelFormat_calls := [pix_fmt]\<rparr>)
                                  else NullDereference)
                   in case pix_fmt of
                        RETRO_PIXEL_FORMAT_0RGB1555 \<Rightarrow> set_format
                      | RETRO_PIXEL_FORMAT_XRGB8888 \<Rightarrow> set_format
                      | RETRO_PIXEL_FORMAT_RGB565 \<Rightarrow> set_format
                      | OTHER_FORMAT n \<Rightarrow> Log LOGERROR [] (untouched data) (Returned False))
              | Some other \<Rightarrow> InvalidRead
              | None \<Rightarrow> NullDereference)
         | RETRO_ENVIRONMENT_SET_INPUT_DESCRIPTORS \<Rightarrow>
             (case data of
                Some (InputDescriptors_at descriptors) \<Rightarrow>
                  (case descriptors of
                     [] \<Rightarrow> InvalidRead
                   | d # rest \<Rightarrow>
                       if description d = None
                       then Log LOGERROR [] (untouched data) (Returned True)
                       else notify_descriptors descriptors (untouched data))
              | Some other \<Rightarrow> InvalidRead
              | None \<Rightarrow> NullDereference)
         | RETRO_ENVIRONMENT_SET_KEYBOARD_CALLBACK \<Rightarrow>
             (case data of
                Some (KeyboardCallback_at callback) \<Rightarrow>
                  (case callback of
                     None \<Rightarrow> Returned True (untouched data)
                   | Some f \<Rightarrow>
                       Log LOGINFO [] (untouched data)
                         (\<lambda>eff. if SetKeyboardCallback_installed host
                                then Returned True (eff\<lparr>SetKeyboardCallback_calls := [f]\<rparr>)
                                else NullDereference))
              | Some other \<Rightarrow> InvalidRead
              | None \<Rightarrow> NullDereference)
         | OTHER_QUERY n \<Rightarrow> Log LOGERROR [] (untouched data) (Returned False)))"

section \<open>Runs of captures and rewinds\<close>

text \<open>
  What happens to a client between two calls of \<^verbatim>\<open>OpenFile\<close>: \<^verbatim>\<open>RunFrame\<close> captures, with
  whatever the core answers to \<^verbatim>\<open>retro_serialize\<close>, and the player rewinds by some number
  of frames. A run stops with \<open>None\<close> when a rewind writes outside the save state.

  \<open>earlier_states\<close> follows a run and keeps, oldest first, the save state that each
  capture replaced: a successful capture adds the save state it found and forgets the
  oldest ones as the ring does, a rewind by \<open>n\<close> forgets the \<open>n\<close> newest.
\<close>

datatype event = Capture serialize_reply | Rewind int

fun step :: "event \<Rightarrow> game_client \<Rightarrow> game_client option" where
  "step (Capture reply) gc = Some (AppendStateDelta reply gc)"
| "step (Rewind frames) gc = map_option snd (RewindFrames frames gc)"

fun run :: "event list \<Rightarrow> game_client \<Rightarrow> game_client option" where
  "run [] gc = Some gc"
| "run (e # es) gc = (case step e gc of None \<Rightarrow> None | Some gc' \<Rightarrow> run es gc')"

fun remember :: "event \<Rightarrow> game_client \<Rightarrow> 32 word list list \<Rightarrow> 32 word list list" where
  "remember (Capture reply) gc h =
     (if m_rewindSupported gc \<and> fst reply
      then drop (Suc (length h) - m_rewindMaxFrames gc) (h @ [m_lastSaveState gc])
      else h)"
| "remember (Rewind frames) gc h = take (length h - nat frames) h"

fun earlier_states ::
  "event list \<Rightarrow> game_client \<Rightarrow> 32 word list list \<Rightarrow> 32 word list list" where
  "earlier_states [] gc h = h"
| "earlier_states (e # es) gc h =
     (case step e gc of None \<Rightarrow> h | Some gc' \<Rightarrow> earlier_states es gc' (remember e gc h))"

section \<open>Notions for the statements and proofs\<close>

text \<open>
  \<open>apply_deltas ds st\<close> applies the deltas \<open>ds\<close> to \<open>st\<close> one after the other, first
  the head. A delta is in range for a save state of \<open>n\<close> words when all its indices are
  below \<open>n\<close>, and the ring of a client is in range when all its deltas are.
\<close>

fun apply_deltas :: "DeltaPairVector list \<Rightarrow> 32 word list \<Rightarrow> 32 word list option" where
  "apply_deltas [] st = Some st"
| "apply_deltas (d # ds) st =
     (case apply_pairs d st of None \<Rightarrow> None | Some st' \<Rightarrow> apply_deltas ds st')"

definition delta_ok :: "nat \<Rightarrow> DeltaPairVector \<Rightarrow> bool" where
  "delta_ok n ps = list_all (\<lambda>p. fst p < n) ps"

definition ring_ok :: "game_client \<Rightarrow> bool" where
  "ring_ok gc = list_all (delta_ok (length (m_lastSaveState gc))) (m_rewindBuffer gc)"

text \<open>
  For the proofs: the pair that the scan stores for index \<open>j\<close>, the words after
  applying a delta without the range check, and the word a delta applies to index \<open>j\<close>
  in all. \<open>linked q S\<close> ties a ring \<open>q\<close> to the save states \<open>S\<close> of its captures,
  oldest first and the current one last: each delta takes the state after its capture
  back to the state before it.
\<close>

definition changed_at :: "32 word list \<Rightarrow> 32 word list \<Rightarrow> nat \<Rightarrow> DeltaPairVector" where
  "changed_at a b j = (if (a ! j) XOR (b ! j) \<noteq> 0 then [(j, (a ! j) XOR (b ! j))] else [])"

fun xor_pairs :: "DeltaPairVector \<Rightarrow> 32 word list \<Rightarrow> 32 word list" where
  "xor_pairs [] st = st"
| "xor_pairs ((i, v) # ps) st = xor_pairs ps (st[i := (st ! i) XOR v])"

fun xor_at :: "DeltaPairVector \<Rightarrow> nat \<Rightarrow> 32 word" where
  "xor_at [] j = 0"
| "xor_at ((i, v) # ps) j = (if i = j then v else 0) XOR xor_at ps j"

definition linked :: "DeltaPairVector list \<Rightarrow> 32 word list list \<Rightarrow> bool" where
  "linked q S \<longleftrightarrow>
     length S = Suc (length q) \<and>
     (\<forall>s \<in> set S. length s = length (last S)) \<and>
     (\<forall>i < length q. delta_ok (length (last S)) (q ! i) \<and> xor_pairs (q ! i) (S ! Suc i) = S ! i)"

text \<open>
  What each kind of attempt says about its strategy, with \<open>n\<close> the number of calls of
  \<^verbatim>\<open>retro_load_game\<close> before it; \<open>attempts_ok\<close> says it of a list of attempts in turn.
  An attempt is final when it ends the loop: the core loaded the game, or an exception
  was thrown.
\<close>

fun is_loaded :: "attempt \<Rightarrow> bool" where
  "is_loaded (Loaded s info) = True"
| "is_loaded a = False"

fun is_thrown :: "attempt \<Rightarrow> bool" where
  "is_thrown (Threw s e) = True"
| "is_thrown a = False"

definition is_final :: "attempt \<Rightarrow> bool" where
  "is_final a = (is_loaded a \<or> is_thrown a)"

fun attempt_ok :: "host \<Rightarrow> core \<Rightarrow> game_client \<Rightarrow> file_item \<Rightarrow> nat \<Rightarrow> attempt \<Rightarrow> bool" where
  "attempt_ok h c gc file n (CannotLoad s) = (CanLoad h gc s file = None)"
| "attempt_ok h c gc file n (NoGameInfo s) =
     (case CanLoad h gc s file of
        None \<Rightarrow> False
      | Some found \<Rightarrow> GetGameInfo h found = Inr None)"
| "attempt_ok h c gc file n (Threw s e) =
     (case CanLoad h gc s file of
        None \<Rightarrow> False
      | Some found \<Rightarrow> GetGameInfo h found = Inl e)"
| "attempt_ok h c gc file n (LoadFailed s info) =
     (case CanLoad h gc s file of
        None \<Rightarrow> False
      | Some found \<Rightarrow> GetGameInfo h found = Inr (Some info) \<and> \<not> retro_load_game c n info)"
| "attempt_ok h c gc file n (Loaded s info) =
     (case CanLoad h gc s file of
        None \<Rightarrow> False
      | Some found \<Rightarrow> GetGameInfo h found = Inr (Some info) \<and> retro_load_game c n info)"

fun attempts_ok ::
  "host \<Rightarrow> core \<Rightarrow> game_client \<Rightarrow> file_item \<Rightarrow> nat \<Rightarrow> attempt list \<Rightarrow> bool" where
  "attempts_ok h c gc file n [] = True"
| "attempts_ok h c gc file n (a # as) =
     (attempt_ok h c gc file n a \<and> attempts_ok h c gc file (n + load_calls [a]) as)"

text \<open>An extension is dotted when it starts with a dot.\<close>

fun dotted :: "string \<Rightarrow> bool" where
  "dotted [] = False"
| "dotted (c # cs) = (c = CHR ''.'')"

section \<open>Concrete clients, files, hosts and cores\<close>

text \<open>
  Two clients of the rewind engine, one right after a game was opened and one with two
  captured frames; a local file, a host and a core for \<^verbatim>\<open>OpenFile\<close> with the client before
  and after; a host that prefers the VFS, where the file has \<open>2 ^ 62\<close> bytes and the heap
  has not; a core that lists \<^verbatim>\<open>zip\<close> and a file in the root of a zip, with the parent URL
  that the last two checks of the parent zip strategy ask for; an environment host and a
  variable without key.
\<close>

definition example_client :: game_client where
  "example_client =
     \<lparr>m_bIsInited = True, m_bIsPlaying = True, m_validExtensions = [''.smc''],
      m_bAllowVFS = False, m_frameRate = 60, m_sampleRate = 32040,
      m_region = RETRO_REGION_NTSC,
      m_rewindSupported = True, m_rewindMaxFrames = 2, m_serializeSize = 8,
      m_lastSaveState = [0, 0], m_rewindBuffer = [], unserialized = [], logged = []\<rparr>"

definition example_rewindable :: game_client where
  "example_rewindable =
     \<lparr>m_bIsInited = True, m_bIsPlaying = True, m_validExtensions = [''.smc''],
      m_bAllowVFS = False, m_frameRate = 60, m_sampleRate = 32040,
      m_region = RETRO_REGION_NTSC,
      m_rewindSupported = True, m_rewindMaxFrames = 2, m_serializeSize = 8,
      m_lastSaveState = [3, 2], m_rewindBuffer = [[(0, 1), (1, 2)], [(0, 2)]],
      unserialized = [], logged = []\<rparr>"

definition example_events :: "event list" where
  "example_events =
     [Capture (True, [1, 2]), Capture (True, [3, 2]), Capture (True, [3, 4]), Rewind 1]"

definition mario :: file_item where
  "mario = \<lparr>GetPath = ''/games/mario.smc'', GetProtocol = [], GetExtension = ''.smc'',
     IsInZIP = False, parentURL_GetFileName = ''games/'', parentURL_GetProtocol = [],
     parentURL_GetHostName = [], gameclient_property = []\<rparr>"

definition example_host :: host where
  "example_host = \<lparr>ID = ''gameclient.snes'', m_bPreferVFS = False,
     vfs_Open = (\<lambda>p. if p = ''/games/mario.smc''
                       then Some \<lparr>GetLength = 3, Read = 3, contents = [1, 2, 3]\<rparr> else None),
     new_succeeds = (\<lambda>n. n < 2 ^ 32),
     GetDirectory = (\<lambda>p m. None)\<rparr>"

definition huge_file_host :: host where
  "huge_file_host = \<lparr>ID = ''gameclient.snes'', m_bPreferVFS = True,
     vfs_Open = (\<lambda>p. Some \<lparr>GetLength = 2 ^ 62, Read = 0, contents = []\<rparr>),
     new_succeeds = (\<lambda>n. n < 2 ^ 32),
     GetDirectory = (\<lambda>p m. None)\<rparr>"

definition example_core :: core where
  "example_core = \<lparr>retro_load_game = (\<lambda>n info. info_data info \<noteq> None),
     timing_fps = 7679 / 128, timing_sample_rate = 128163 / 4,
     retro_serialize_size = 6, retro_serialize = (True, [17, 18]),
     retro_get_region = RETRO_REGION_NTSC\<rparr>"

definition fresh_client :: game_client where
  "fresh_client =
     \<lparr>m_bIsInited = False, m_bIsPlaying = False,
      m_validExtensions = SetExtensions False ''smc|SFC|zip'',
      m_bAllowVFS = True, m_frameRate = 0, m_sampleRate = 0,
      m_region = OTHER_REGION (- 1),
      m_rewindSupported = False, m_rewindMaxFrames = 0, m_serializeSize = 0,
      m_lastSaveState = [], m_rewindBuffer = [], unserialized = [], logged = []\<rparr>"

definition mario_attempts :: "attempt list" where
  "mario_attempts =
     [LoadFailed CStrategyUseHD
        \<lparr>info_path = Some ''/games/mario.smc'', info_data = None, info_size = 0\<rparr>,
      CannotLoad CStrategyUseParentZip,
      Loaded CStrategyUseVFS \<lparr>info_path = None, info_data = Some [1, 2, 3], info_size = 3\<rparr>]"

definition mario_client :: game_client where
  "mario_client =
     \<lparr>m_bIsInited = True, m_bIsPlaying = True, m_validExtensions = [''.smc'', ''.sfc''],
      m_bAllowVFS = True, m_frameRate = 7679 / 128, m_sampleRate = 128163 / 4,
      m_region = RETRO_REGION_NTSC,
      m_rewindSupported = True, m_rewindMaxFrames = 3599, m_serializeSize = 6,
      m_lastSaveState = [17, 18], m_rewindBuffer = [], unserialized = [], logged = []\<rparr>"

definition half_rate_client :: game_client where
  "half_rate_client = mario_client\<lparr>m_sampleRate := 1 / 2\<rparr>"

definition zip_client :: game_client where
  "zip_client = fresh_client\<lparr>m_validExtensions := SetExtensions True ''nes|zip''\<rparr>"

definition game_in_zip :: file_item where
  "game_in_zip = \<lparr>GetPath = ''zip://%2Froms%2Fpack.zip/game.nes'', GetProtocol = ''zip'',
     GetExtension = ''.nes'', IsInZIP = True, parentURL_GetFileName = [],
     parentURL_GetProtocol = [], parentURL_GetHostName = ''/roms/pack.zip'',
     gameclient_property = []\<rparr>"

definition retroplayer_host :: environment_host where
  "retroplayer_host = \<lparr>SetPixelFormat_installed = True, SetKeyboardCallback_installed = True,
     retroplayer_is_current = True\<rparr>"

definition nameless_variable :: retro_variable where
  "nameless_variable = \<lparr>var_key = None, var_value = Some ''undefined''\<rparr>"

section \<open>Facts about the delta scan and the loops\<close>

lemma length_overwrite: "length (overwrite buf ws) = length buf"
  by (simp add: overwrite_def)

declare delta_scan.simps [simp del] evict_front.simps [simp del] rewind_loop.simps [simp del]

lemma delta_scan_eq:
  "delta_scan a b i n acc = acc @ concat (map (changed_at a b) [i..<n])"
proof (induction a b i n acc rule: delta_scan.induct)
  case (1 a b i n acc)
  show ?case
  proof (cases "i < n")
    case True
    then show ?thesis
      using "1.IH" [OF True refl]
      by (subst delta_scan.simps) (simp add: upt_conv_Cons changed_at_def [of a b i] Let_def)
  next
    case False
    then show ?thesis by (subst delta_scan.simps) simp
  qed
qed

lemma length_xor_pairs [simp]: "length (xor_pairs ps st) = length st"
  by (induction ps st rule: xor_pairs.induct) simp_all

lemma nth_xor_pairs: "j < length st \<Longrightarrow> xor_pairs ps st ! j = (st ! j) XOR xor_at ps j"
proof (induction ps st rule: xor_pairs.induct)
  case (1 st)
  then show ?case by simp
next
  case (2 i v ps st)
  then show ?case
    by (cases "i = j") (simp_all add: ac_simps)
qed

lemma mask_append: "xor_at (xs @ ys) j = xor_at xs j XOR xor_at ys j"
  by (induction xs j rule: xor_at.induct) (simp_all add: ac_simps)

lemma apply_pairs_Some:
  "delta_ok (length st) ps \<Longrightarrow> apply_pairs ps st = Some (xor_pairs ps st)"
  by (induction ps st rule: xor_pairs.induct) (simp_all add: delta_ok_def)

lemma apply_pairs_SomeD:
  "apply_pairs ps st = Some st' \<Longrightarrow> delta_ok (length st) ps \<and> st' = xor_pairs ps st"
  by (induction ps st rule: xor_pairs.induct) (auto simp: delta_ok_def split: if_splits)


lemma mask_changed:
  "xor_at (concat (map (changed_at a b) [i..<n])) j =
     (if i \<le> j \<and> j < n then (a ! j) XOR (b ! j) else 0)"
proof (induction n)
  case 0
  then show ?case by simp
next
  case (Suc n)
  show ?case
  proof (cases "i \<le> n")
    case True
    then show ?thesis
      using Suc by (auto simp: mask_append changed_at_def)
  next
    case False
    then show ?thesis by auto
  qed
qed

lemma delta_ok_changed: "delta_ok n (concat (map (changed_at a b) [i..<n]))"
  by (auto simp: delta_ok_def list_all_iff changed_at_def split: if_splits)

lemma delta_scan_ok: "delta_ok n (delta_scan a b 0 n [])"
  by (simp add: delta_scan_eq delta_ok_changed)

lemma delta_scan_undo:
  "length a = length b \<Longrightarrow> xor_pairs (delta_scan a b 0 (length b) []) b = a"
  by (rule nth_equalityI) (simp_all add: nth_xor_pairs delta_scan_eq mask_changed ac_simps)

lemma evict_front_eq: "evict_front m q = drop (length q - m) q"
proof (induction m q rule: evict_front.induct)
  case (1 m q)
  show ?case
  proof (cases "length q > m")
    case True
    then have "q \<noteq> []" by auto
    then obtain x q' where q: "q = x # q'" by (cases q) auto
    with True have "length q - m = Suc (length q' - m)" by simp
    with "1.IH" [OF True] q show ?thesis
      by (subst evict_front.simps) simp
  next
    case False
    then show ?thesis by (subst evict_front.simps) simp
  qed
qed

lemma rewind_loop_eq:
  "rewind_loop f a st q =
     (case apply_deltas (take (nat f) (rev q)) st of
        None \<Rightarrow> None
      | Some st' \<Rightarrow> Some (a + int (min (nat f) (length q)), st', take (length q - nat f) q))"
proof (induction f a st q rule: rewind_loop.induct)
  case (1 f a st q)
  show ?case
  proof (cases "f > 0 \<and> length q > 0")
    case False
    then show ?thesis by (subst rewind_loop.simps) auto
  next
    case True
    then obtain q' d where q: "q = q' @ [d]" by (cases q rule: rev_cases) auto
    from True have f: "nat f = Suc (nat (f - 1))" by linarith
    show ?thesis
    proof (cases "apply_pairs d st")
      case None
      with True q f show ?thesis by (subst rewind_loop.simps) simp
    next
      case (Some st')
      have "rewind_loop f a st q = rewind_loop (f - 1) (a + 1) st' q'"
        using True q Some by (subst rewind_loop.simps) simp
      also have "\<dots> = (case apply_deltas (take (nat (f - 1)) (rev q')) st' of
           None \<Rightarrow> None
         | Some st'' \<Rightarrow> Some (a + 1 + int (min (nat (f - 1)) (length q')), st'',
                           take (length q' - nat (f - 1)) q'))"
        using "1.IH" [OF True, of st'] q Some by (simp cong: option.case_cong)
      finally show ?thesis
        using q Some f by (simp split: option.splits)
    qed
  qed
qed

lemma apply_deltas_ok:
  "list_all (delta_ok (length st)) ds \<Longrightarrow>
     \<exists>st'. apply_deltas ds st = Some st' \<and> length st' = length st"
proof (induction ds arbitrary: st)
  case Nil
  then show ?case by simp
next
  case (Cons d ds)
  then have "apply_pairs d st = Some (xor_pairs d st)"
    by (simp add: apply_pairs_Some)
  moreover have "\<exists>st'. apply_deltas ds (xor_pairs d st) = Some st' \<and> length st' = length st"
    using Cons.IH [of "xor_pairs d st"] Cons.prems by simp
  ultimately show ?case by simp
qed

lemma apply_deltas_nth:
  "apply_deltas ds st = Some st' \<Longrightarrow>
     length st' = length st
     \<and> (\<forall>j < length st. st' ! j = (st ! j) XOR xor_at (concat ds) j)"
proof (induction ds arbitrary: st)
  case Nil
  then show ?case by simp
next
  case (Cons d ds)
  from Cons.prems obtain st1 where d: "apply_pairs d st = Some st1"
    and ds: "apply_deltas ds st1 = Some st'"
    by (auto split: option.splits)
  from d have st1: "st1 = xor_pairs d st" by (simp add: apply_pairs_SomeD)
  from Cons.IH [OF ds] have len: "length st' = length st1"
    and nth: "\<forall>j < length st1. st' ! j = (st1 ! j) XOR xor_at (concat ds) j"
    by simp_all
  have "st' ! j = (st ! j) XOR xor_at (concat (d # ds)) j" if "j < length st" for j
  proof -
    from that nth st1 have "st' ! j = (xor_pairs d st ! j) XOR xor_at (concat ds) j" by simp
    with that show ?thesis by (simp add: nth_xor_pairs mask_append ac_simps)
  qed
  with len st1 show ?case by simp
qed

section \<open>Facts about runs of captures and rewinds\<close>

lemma linked_single: "linked [] [st]"
  by (simp add: linked_def)

lemma linked_same_length: "linked q S \<Longrightarrow> i < length S \<Longrightarrow> length (S ! i) = length (last S)"
  by (simp add: linked_def)

lemma linked_snoc:
  assumes "linked q S" and "delta_ok (length buf) d" and "xor_pairs d buf = last S"
  shows "linked (q @ [d]) (S @ [buf])"
proof -
  from assms(1) have len: "length S = Suc (length q)" by (simp add: linked_def)
  then have ne: "S \<noteq> []" by auto
  have same: "length buf = length (last S)"
    using assms(3) length_xor_pairs [of d buf] by simp
  have last_nth: "last S = S ! length q"
    using len ne by (simp add: last_conv_nth)
  show ?thesis
    unfolding linked_def
  proof (intro conjI allI impI ballI)
    show "length (S @ [buf]) = Suc (length (q @ [d]))" using len by simp
  next
    fix s assume "s \<in> set (S @ [buf])"
    then show "length s = length (last (S @ [buf]))"
      using assms(1) same by (auto simp: linked_def)
  next
    fix i assume i: "i < length (q @ [d])"
    show "delta_ok (length (last (S @ [buf]))) ((q @ [d]) ! i)"
      using assms(1,2) i same by (cases "i < length q") (auto simp: linked_def nth_append)
  next
    fix i assume i: "i < length (q @ [d])"
    show "xor_pairs ((q @ [d]) ! i) ((S @ [buf]) ! Suc i) = (S @ [buf]) ! i"
    proof (cases "i < length q")
      case True
      then show ?thesis using assms(1) len by (simp add: linked_def nth_append)
    next
      case False
      with i have "i = length q" by simp
      then show ?thesis using assms(3) len last_nth by (simp add: nth_append)
    qed
  qed
qed

lemma linked_drop:
  assumes "linked q S" and "m \<le> length q"
  shows "linked (drop m q) (drop m S)"
proof -
  from assms have len: "length S = Suc (length q)" by (simp add: linked_def)
  with assms(2) have "drop m S \<noteq> []" by simp
  then have lst: "last (drop m S) = last S" by (simp add: last_drop len assms(2) less_Suc_eq_le)
  show ?thesis
    unfolding linked_def lst
    using assms len by (auto simp: linked_def dest: in_set_dropD)
qed

lemma linked_take:
  assumes "linked q S" and "m \<le> length q"
  shows "linked (take m q) (take (Suc m) S)"
proof -
  from assms have len: "length S = Suc (length q)" by (simp add: linked_def)
  have ne: "take (Suc m) S \<noteq> []" using len by auto
  have "last (take (Suc m) S) = S ! m"
    using len assms(2) ne by (simp add: last_conv_nth min_def)
  moreover have "length (S ! m) = length (last S)"
    using assms len by (simp add: linked_def)
  ultimately have lst: "length (last (take (Suc m) S)) = length (last S)" by simp
  show ?thesis
    unfolding linked_def lst
    using assms len by (auto simp: linked_def dest: in_set_takeD)
qed

lemma apply_deltas_append:
  "apply_deltas (xs @ ys) st =
     (case apply_deltas xs st of None \<Rightarrow> None | Some st' \<Rightarrow> apply_deltas ys st')"
  by (induction xs arbitrary: st) (simp_all split: option.splits)

lemma linked_rewind:
  assumes "linked q S" and "k \<le> length q"
  shows "apply_deltas (take k (rev q)) (last S) = Some (S ! (length q - k))"
  using assms(2)
proof (induction k)
  case 0
  from assms(1) have "length S = Suc (length q)" by (simp add: linked_def)
  then show ?case by (cases S rule: rev_cases) (simp_all add: nth_append)
next
  case (Suc k)
  then have k: "k < length q" by simp
  let ?i = "length q - Suc k"
  have i: "?i < length q" "Suc ?i = length q - k" using k by simp_all
  have len: "length S = Suc (length q)" using assms(1) by (simp add: linked_def)
  have "take (Suc k) (rev q) = take k (rev q) @ [q ! ?i]"
    using k by (simp add: take_Suc_conv_app_nth rev_nth)
  moreover have "apply_deltas (take k (rev q)) (last S) = Some (S ! Suc ?i)"
    using Suc.IH k i by simp
  moreover have "delta_ok (length (S ! Suc ?i)) (q ! ?i)"
    using assms(1) i(1) len by (simp add: linked_def)
  then have "apply_pairs (q ! ?i) (S ! Suc ?i) = Some (xor_pairs (q ! ?i) (S ! Suc ?i))"
    by (rule apply_pairs_Some)
  moreover have "xor_pairs (q ! ?i) (S ! Suc ?i) = S ! ?i"
    using assms(1) i(1) by (simp add: linked_def)
  ultimately show ?case by (simp add: apply_deltas_append)
qed

lemma linked_ring_ok:
  "linked (m_rewindBuffer gc) (h @ [m_lastSaveState gc]) \<Longrightarrow> ring_ok gc"
  by (auto simp: linked_def ring_ok_def list_all_length)

lemma RewindFrames_linked:
  assumes lk: "linked (m_rewindBuffer gc) (h @ [m_lastSaveState gc])"
  shows "\<exists>gc'. RewindFrames frames gc = Some (min (max frames 0) (int (length h)), gc')
     \<and> m_lastSaveState gc' = (h @ [m_lastSaveState gc]) ! (length h - nat frames)
     \<and> m_rewindBuffer gc' = take (length h - nat frames) (m_rewindBuffer gc)
     \<and> m_rewindMaxFrames gc' = m_rewindMaxFrames gc"
proof -
  let ?q = "m_rewindBuffer gc"
  let ?S = "h @ [m_lastSaveState gc]"
  let ?k = "min (nat frames) (length ?q)"
  from lk have len: "length h = length ?q" by (simp add: linked_def)
  have "take (nat frames) (rev ?q) = take ?k (rev ?q)" by (simp add: min_def)
  moreover have "apply_deltas (take ?k (rev ?q)) (last ?S) = Some (?S ! (length ?q - ?k))"
    using lk by (intro linked_rewind) simp_all
  moreover have "length ?q - ?k = length h - nat frames" using len by simp
  ultimately have ad: "apply_deltas (take (nat frames) (rev ?q)) (m_lastSaveState gc)
      = Some (?S ! (length h - nat frames))" by simp
  have "int ?k = min (max frames 0) (int (length h))" using len by arith
  with ad len show ?thesis
    by (simp add: RewindFrames_def rewind_loop_eq Let_def)
qed

lemma AppendStateDelta_linked:
  assumes lk: "linked (m_rewindBuffer gc) (h @ [m_lastSaveState gc])"
  shows "linked (m_rewindBuffer (AppendStateDelta reply gc))
           (remember (Capture reply) gc h @ [m_lastSaveState (AppendStateDelta reply gc)])"
proof (cases "m_rewindSupported gc \<and> fst reply")
  case False
  then show ?thesis using lk by (auto simp: AppendStateDelta_def Let_def)
next
  case True
  let ?q = "m_rewindBuffer gc"
  let ?last = "m_lastSaveState gc"
  let ?buf = "overwrite (replicate (length ?last) 0) (snd reply)"
  let ?d = "delta_scan ?last ?buf 0 (length ?buf) []"
  let ?m = "Suc (length ?q) - m_rewindMaxFrames gc"
  from lk have len: "length h = length ?q" by (simp add: linked_def)
  have lb: "length ?last = length ?buf" by (simp add: length_overwrite)
  have "linked (?q @ [?d]) ((h @ [?last]) @ [?buf])"
    using lk
  proof (rule linked_snoc)
    show "delta_ok (length ?buf) ?d" by (rule delta_scan_ok)
    show "xor_pairs ?d ?buf = last (h @ [?last])"
      using delta_scan_undo [OF lb] by simp
  qed
  then have "linked (drop ?m (?q @ [?d])) (drop ?m ((h @ [?last]) @ [?buf]))"
    by (rule linked_drop) simp
  moreover have "drop ?m ((h @ [?last]) @ [?buf]) = drop ?m (h @ [?last]) @ [?buf]"
    by (subst drop_append) (simp add: len)
  ultimately show ?thesis
    using True len by (simp add: AppendStateDelta_def Let_def evict_front_eq)
qed

lemma step_linked:
  assumes lk: "linked (m_rewindBuffer gc) (h @ [m_lastSaveState gc])"
  shows "\<exists>gc'. step e gc = Some gc'
     \<and> linked (m_rewindBuffer gc') (remember e gc h @ [m_lastSaveState gc'])"
proof (cases e)
  case (Capture reply)
  then show ?thesis using AppendStateDelta_linked [OF lk] by simp
next
  case (Rewind frames)
  from lk have len: "length h = length (m_rewindBuffer gc)" by (simp add: linked_def)
  obtain gc' where gc': "RewindFrames frames gc = Some (min (max frames 0) (int (length h)), gc')"
      "m_lastSaveState gc' = (h @ [m_lastSaveState gc]) ! (length h - nat frames)"
      "m_rewindBuffer gc' = take (length h - nat frames) (m_rewindBuffer gc)"
    using RewindFrames_linked [OF lk] by blast
  have "linked (take (length h - nat frames) (m_rewindBuffer gc))
          (take (Suc (length h - nat frames)) (h @ [m_lastSaveState gc]))"
    using lk by (rule linked_take) (simp add: len)
  moreover have "take (Suc (length h - nat frames)) (h @ [m_lastSaveState gc])
      = take (length h - nat frames) h @ [(h @ [m_lastSaveState gc]) ! (length h - nat frames)]"
    by (subst take_Suc_conv_app_nth) simp_all
  ultimately show ?thesis using Rewind gc' by simp
qed

lemma run_linked:
  "linked (m_rewindBuffer gc) (h @ [m_lastSaveState gc]) \<Longrightarrow>
     \<exists>gc'. run evs gc = Some gc'
       \<and> linked (m_rewindBuffer gc') (earlier_states evs gc h @ [m_lastSaveState gc'])"
proof (induction evs arbitrary: gc h)
  case Nil
  then show ?case by simp
next
  case (Cons e evs)
  from step_linked [OF Cons.prems, of e] obtain gc1 where
    s: "step e gc = Some gc1" and
    l: "linked (m_rewindBuffer gc1) (remember e gc h @ [m_lastSaveState gc1])" by blast
  from Cons.IH [OF l] s show ?case by simp
qed

lemma run_ring_ok:
  assumes "m_rewindBuffer gc0 = []" and "run evs gc0 = Some gc"
  shows "ring_ok gc"
proof -
  have "linked (m_rewindBuffer gc0) ([] @ [m_lastSaveState gc0])"
    using assms(1) by (simp add: linked_single)
  from run_linked [OF this, of evs] assms(2)
  have "linked (m_rewindBuffer gc) (earlier_states evs gc0 [] @ [m_lastSaveState gc])"
    by auto
  then show ?thesis by (rule linked_ring_ok)
qed

lemma step_bounded:
  "step e gc = Some gc' \<Longrightarrow> length (m_rewindBuffer gc) \<le> m_rewindMaxFrames gc \<Longrightarrow>
     length (m_rewindBuffer gc') \<le> m_rewindMaxFrames gc'"
proof (cases e)
  case (Capture reply)
  assume "step e gc = Some gc'" "length (m_rewindBuffer gc) \<le> m_rewindMaxFrames gc"
  with Capture show ?thesis
    by (auto simp: AppendStateDelta_def Let_def evict_front_eq)
next
  case (Rewind frames)
  assume "step e gc = Some gc'" "length (m_rewindBuffer gc) \<le> m_rewindMaxFrames gc"
  with Rewind show ?thesis
    by (auto simp: RewindFrames_def rewind_loop_eq Let_def split: option.splits if_splits)
qed

lemma run_bounded:
  "run evs gc = Some gc' \<Longrightarrow> length (m_rewindBuffer gc) \<le> m_rewindMaxFrames gc \<Longrightarrow>
     length (m_rewindBuffer gc') \<le> m_rewindMaxFrames gc'"
proof (induction evs arbitrary: gc)
  case Nil
  then show ?case by simp
next
  case (Cons e evs)
  then show ?case by (auto split: option.splits dest: step_bounded)
qed

section \<open>Properties of the rewind engine\<close>

lemma run_example:
  "run example_events example_client =
     Some \<lparr>m_bIsInited = True, m_bIsPlaying = True, m_validExtensions = [''.smc''],
       m_bAllowVFS = False, m_frameRate = 60, m_sampleRate = 32040,
      m_region = RETRO_REGION_NTSC,
       m_rewindSupported = True, m_rewindMaxFrames = 2, m_serializeSize = 8,
       m_lastSaveState = [3, 2], m_rewindBuffer = [[(0, 2)]],
       unserialized = [([3, 2], 8)], logged = []\<rparr>"
  by (simp add: example_events_def example_client_def AppendStateDelta_def RewindFrames_def
      overwrite_def Let_def delta_scan.simps evict_front.simps rewind_loop.simps)


text \<open>
  C1: a call \<^verbatim>\<open>RewindFrames(n)\<close> with \<open>n > 0\<close> on a ring of length \<open>L\<close> whose deltas
  index inside the save state (as they do in every client that a run from an empty ring
  reaches) returns \<open>min n L\<close> and leaves the ring with its \<open>L - min n L\<close> oldest entries.
  The popped deltas are the \<open>min n L\<close> newest, applied newest first; the save state keeps
  its length, and its word \<open>j\<close> afterwards is the word before XORed with the value \<open>v\<close> of
  every pair \<open>(j, v)\<close> of the popped deltas, which is what \<open>xor_at\<close> of their concatenation
  collects. \<^verbatim>\<open>retro_unserialize\<close> is called, once and with the new save state, exactly when
  a frame was rolled back.
\<close>

theorem RewindFrames_positive:
  assumes ok: "ring_ok gc" and pos: "0 < frames"
  shows "\<exists>gc'. RewindFrames frames gc = Some (min frames (int (length (m_rewindBuffer gc))), gc')
     \<and> length (m_rewindBuffer gc')
         = length (m_rewindBuffer gc) - nat (min frames (int (length (m_rewindBuffer gc))))
     \<and> m_rewindBuffer gc'
         = take (length (m_rewindBuffer gc) - nat frames) (m_rewindBuffer gc)
     \<and> apply_deltas (take (nat frames) (rev (m_rewindBuffer gc))) (m_lastSaveState gc)
         = Some (m_lastSaveState gc')
     \<and> length (m_lastSaveState gc') = length (m_lastSaveState gc)
     \<and> (\<forall>j < length (m_lastSaveState gc).
           m_lastSaveState gc' ! j
             = (m_lastSaveState gc ! j)
                 XOR xor_at (concat (take (nat frames) (rev (m_rewindBuffer gc)))) j)
     \<and> unserialized gc'
         = unserialized gc @
             (if 0 < min frames (int (length (m_rewindBuffer gc)))
              then [(m_lastSaveState gc', m_serializeSize gc)] else [])
     \<and> logged gc' = logged gc"
proof -
  let ?q = "m_rewindBuffer gc"
  have "list_all (delta_ok (length (m_lastSaveState gc))) (take (nat frames) (rev ?q))"
    using ok by (auto simp: ring_ok_def list_all_iff dest: in_set_takeD)
  then obtain st' where st': "apply_deltas (take (nat frames) (rev ?q)) (m_lastSaveState gc) = Some st'"
    using apply_deltas_ok by blast
  from apply_deltas_nth [OF st'] have len: "length st' = length (m_lastSaveState gc)"
    and nth: "\<forall>j < length (m_lastSaveState gc).
        st' ! j = (m_lastSaveState gc ! j) XOR xor_at (concat (take (nat frames) (rev ?q))) j"
    by simp_all
  have k: "int (min (nat frames) (length ?q)) = min frames (int (length ?q))"
    using pos by simp
  have nz: "min frames (int (length ?q)) \<noteq> 0 \<longleftrightarrow> ?q \<noteq> []"
    using pos by (auto simp: min_def split: if_splits)
  have nz': "0 < min frames (int (length ?q)) \<longleftrightarrow> ?q \<noteq> []"
    using pos by (auto simp: min_def split: if_splits)
  show ?thesis
    using st' len nth k nz nz' pos
    by (cases "?q = []") (simp_all add: RewindFrames_def rewind_loop_eq Let_def)
qed

theorem RewindFrames_positive_witness:
  "ring_ok example_rewindable \<and> (0 :: int) < 1 \<and> (0 :: int) < 5
   \<and> m_lastSaveState example_rewindable = [3, 2]
   \<and> m_rewindBuffer example_rewindable = [[(0, 1), (1, 2)], [(0, 2)]]
   \<and> (\<exists>gc'. RewindFrames 1 example_rewindable = Some (1, gc')
         \<and> m_rewindBuffer gc' = [[(0, 1), (1, 2)]] \<and> m_lastSaveState gc' = [1, 2]
         \<and> unserialized gc' = [([1, 2], 8)])
   \<and> (\<exists>gc'. RewindFrames 5 example_rewindable = Some (2, gc')
         \<and> m_rewindBuffer gc' = [] \<and> m_lastSaveState gc' = [0, 0]
         \<and> unserialized gc' = [([0, 0], 8)])"
proof -
  have ok: "ring_ok example_rewindable"
    by (simp add: ring_ok_def delta_ok_def example_rewindable_def)
  have one: "(0 :: int) < 1" and five: "(0 :: int) < 5" by simp_all
  have nth2: "xs = [a, b]" if "length xs = 2" "xs ! 0 = a" "xs ! 1 = b"
    for xs :: "32 word list" and a b
    using that by (cases xs; cases "tl xs") auto
  from RewindFrames_positive [OF ok one] obtain gc1 where
    "RewindFrames 1 example_rewindable
       = Some (min 1 (int (length (m_rewindBuffer example_rewindable))), gc1)"
    "m_rewindBuffer gc1
       = take (length (m_rewindBuffer example_rewindable) - nat 1) (m_rewindBuffer example_rewindable)"
    "length (m_lastSaveState gc1) = length (m_lastSaveState example_rewindable)"
    "\<forall>j < length (m_lastSaveState example_rewindable).
        m_lastSaveState gc1 ! j
          = (m_lastSaveState example_rewindable ! j)
              XOR xor_at (concat (take (nat 1) (rev (m_rewindBuffer example_rewindable)))) j"
    "unserialized gc1 = unserialized example_rewindable @
        (if 0 < min 1 (int (length (m_rewindBuffer example_rewindable)))
         then [(m_lastSaveState gc1, m_serializeSize example_rewindable)] else [])"
    by blast
  then have "RewindFrames 1 example_rewindable = Some (1, gc1)"
    "m_rewindBuffer gc1 = [[(0, 1), (1, 2)]]"
    "length (m_lastSaveState gc1) = 2"
    "m_lastSaveState gc1 ! 0 = 1" "m_lastSaveState gc1 ! 1 = 2"
    "unserialized gc1 = [(m_lastSaveState gc1, 8)]"
    by (simp_all add: example_rewindable_def)
  then have first: "\<exists>gc'. RewindFrames 1 example_rewindable = Some (1, gc')
         \<and> m_rewindBuffer gc' = [[(0, 1), (1, 2)]] \<and> m_lastSaveState gc' = [1, 2]
         \<and> unserialized gc' = [([1, 2], 8)]"
    using nth2 [of "m_lastSaveState gc1" 1 2] by simp
  from RewindFrames_positive [OF ok five] obtain gc' where
    "RewindFrames 5 example_rewindable
       = Some (min 5 (int (length (m_rewindBuffer example_rewindable))), gc')"
    "m_rewindBuffer gc'
       = take (length (m_rewindBuffer example_rewindable) - nat 5) (m_rewindBuffer example_rewindable)"
    "apply_deltas (take (nat 5) (rev (m_rewindBuffer example_rewindable)))
        (m_lastSaveState example_rewindable) = Some (m_lastSaveState gc')"
    "unserialized gc' = unserialized example_rewindable @
        (if 0 < min 5 (int (length (m_rewindBuffer example_rewindable)))
         then [(m_lastSaveState gc', m_serializeSize example_rewindable)] else [])"
    by blast
  then have "RewindFrames 5 example_rewindable = Some (2, gc')
         \<and> m_rewindBuffer gc' = [] \<and> m_lastSaveState gc' = [0, 0]
         \<and> unserialized gc' = [([0, 0], 8)]"
    by (simp add: example_rewindable_def)
  with ok first show ?thesis by (auto simp: example_rewindable_def)
qed



text \<open>
  C3: after any sequence of captures and rewinds that starts with an empty ring, the
  ring is no longer than \<^verbatim>\<open>m_rewindMaxFrames\<close>; a further capture keeps the bound, and a
  successful one leaves the ring with its new delta at the back and as many entries
  dropped from the front as the bound asks for.
\<close>

theorem rewind_ring_bounded:
  assumes empty: "m_rewindBuffer gc0 = []"
  shows "\<exists>gc. run evs gc0 = Some gc
     \<and> length (m_rewindBuffer gc) \<le> m_rewindMaxFrames gc
     \<and> length (m_rewindBuffer (AppendStateDelta reply gc)) \<le> m_rewindMaxFrames gc
     \<and> (m_rewindSupported gc \<and> fst reply \<longrightarrow>
          (\<exists>d. m_rewindBuffer (AppendStateDelta reply gc)
                 = drop (Suc (length (m_rewindBuffer gc)) - m_rewindMaxFrames gc)
                     (m_rewindBuffer gc @ [d])))"
proof -
  have "linked (m_rewindBuffer gc0) ([] @ [m_lastSaveState gc0])"
    using empty by (simp add: linked_single)
  from run_linked [OF this, of evs] obtain gc where r: "run evs gc0 = Some gc" by blast
  have b: "length (m_rewindBuffer gc) \<le> m_rewindMaxFrames gc"
    using run_bounded [OF r] empty by simp
  have "length (m_rewindBuffer (AppendStateDelta reply gc)) \<le> m_rewindMaxFrames gc"
    using b by (auto simp: AppendStateDelta_def Let_def evict_front_eq)
  moreover have "m_rewindSupported gc \<and> fst reply \<longrightarrow>
          (\<exists>d. m_rewindBuffer (AppendStateDelta reply gc)
                 = drop (Suc (length (m_rewindBuffer gc)) - m_rewindMaxFrames gc)
                     (m_rewindBuffer gc @ [d]))"
    by (auto simp: AppendStateDelta_def Let_def evict_front_eq)
  ultimately show ?thesis using r b by blast
qed

theorem rewind_ring_bounded_witness:
  "m_rewindBuffer example_client = []
   \<and> (\<exists>gc. run example_events example_client = Some gc
     \<and> length (m_rewindBuffer gc) \<le> m_rewindMaxFrames gc
     \<and> length (m_rewindBuffer (AppendStateDelta (True, [5, 5]) gc)) \<le> m_rewindMaxFrames gc
     \<and> m_rewindSupported gc \<and> fst (True, [5, 5 :: 32 word])
     \<and> (\<exists>d. m_rewindBuffer (AppendStateDelta (True, [5, 5]) gc)
                 = drop (Suc (length (m_rewindBuffer gc)) - m_rewindMaxFrames gc)
                     (m_rewindBuffer gc @ [d])))"
proof -
  have h: "m_rewindBuffer example_client = []"
    by (simp add: example_client_def)
  from rewind_ring_bounded [OF h, of example_events "(True, [5, 5])"]
  obtain gc where
    r: "run example_events example_client = Some gc" and
    rest: "length (m_rewindBuffer gc) \<le> m_rewindMaxFrames gc"
      "length (m_rewindBuffer (AppendStateDelta (True, [5, 5]) gc)) \<le> m_rewindMaxFrames gc"
      "m_rewindSupported gc \<and> fst (True, [5, 5 :: 32 word]) \<longrightarrow>
          (\<exists>d. m_rewindBuffer (AppendStateDelta (True, [5, 5]) gc)
                 = drop (Suc (length (m_rewindBuffer gc)) - m_rewindMaxFrames gc)
                     (m_rewindBuffer gc @ [d]))"
    by blast
  from r have s: "m_rewindSupported gc" by (auto simp: run_example)
  with h r rest show ?thesis by auto
qed

text \<open>
  C9: when rewind is supported and the core's \<^verbatim>\<open>retro_serialize\<close> returns false,
  \<^verbatim>\<open>AppendStateDelta\<close> logs one error and changes nothing else: the save state and the ring
  are as before.
\<close>

theorem AppendStateDelta_serialize_failed:
  assumes "m_rewindSupported gc" and "\<not> fst reply"
  shows "AppendStateDelta reply gc = gc\<lparr>logged := logged gc @ [LOGERROR]\<rparr>
       \<and> m_lastSaveState (AppendStateDelta reply gc) = m_lastSaveState gc
       \<and> m_rewindBuffer (AppendStateDelta reply gc) = m_rewindBuffer gc"
  using assms by (simp add: AppendStateDelta_def Let_def)

theorem AppendStateDelta_serialize_failed_witness:
  "m_rewindSupported example_rewindable \<and> \<not> fst (False, [7, 7 :: 32 word])
   \<and> m_lastSaveState (AppendStateDelta (False, [7, 7]) example_rewindable) = [3, 2]
   \<and> m_rewindBuffer (AppendStateDelta (False, [7, 7]) example_rewindable)
       = [[(0, 1), (1, 2)], [(0, 2)]]
   \<and> logged (AppendStateDelta (False, [7, 7]) example_rewindable) = [LOGERROR]"
  using AppendStateDelta_serialize_failed [of example_rewindable "(False, [7, 7])"]
  by (simp add: example_rewindable_def)

text \<open>
  C10: a call \<^verbatim>\<open>RewindFrames(n)\<close> with \<open>n \<le> 0\<close> returns 0 and leaves the client as it
  was: same save state, same ring, no call of \<^verbatim>\<open>retro_unserialize\<close>.
\<close>

theorem RewindFrames_nonpositive:
  "frames \<le> 0 \<Longrightarrow> RewindFrames frames gc = Some (0, gc)"
  by (simp add: RewindFrames_def rewind_loop.simps [of frames])

theorem RewindFrames_nonpositive_witness:
  "(- 3 :: int) \<le> 0 \<and> RewindFrames (- 3) example_rewindable = Some (0, example_rewindable)"
  using RewindFrames_nonpositive [of "- 3" example_rewindable] by simp

section \<open>Facts about strings and doubles\<close>

lemma tolower_bits:
  "tolower c =
     (if 65 \<le> (of_char c :: nat) \<and> (of_char c :: nat) \<le> 90
      then (case c of Char b0 b1 b2 b3 b4 b5 b6 b7 \<Rightarrow> Char b0 b1 b2 b3 b4 True b6 b7)
      else c)"
  by (cases c) (auto simp: tolower_def char_of_def bit_simps)

declare bit_length.simps [simp del]

section \<open>Facts about the strategy loop\<close>

lemma load_calls_append: "load_calls (xs @ ys) = load_calls xs + load_calls ys"
  by (induction xs rule: load_calls.induct) simp_all

lemma strategies_False:
  "strategies False = [CStrategyUseHD, CStrategyUseParentZip, CStrategyUseVFS, CStrategyEnterZip]"
  by (simp add: strategies_def)

lemma strategies_True:
  "strategies True = [CStrategyUseVFS, CStrategyEnterZip, CStrategyUseHD, CStrategyUseParentZip]"
  by (simp add: strategies_def swap_def)

lemma length_strategies: "length (strategies p) = 4"
  by (cases p) (simp_all add: strategies_False strategies_True)

lemma load_loop_props:
  "load_loop h c gc file ss tried0 = (ended, tried) \<Longrightarrow>
     \<exists>new. tried = tried0 @ new
       \<and> map attempt_strategy new = take (length new) ss
       \<and> attempts_ok h c gc file (load_calls tried0) new
       \<and> (ended = Inr True \<longleftrightarrow> new \<noteq> [] \<and> is_loaded (last new))
       \<and> (\<forall>e. ended = Inl e \<longleftrightarrow> new \<noteq> [] \<and> last new = Threw (attempt_strategy (last new)) e)
       \<and> (\<forall>a \<in> set (butlast new). \<not> is_final a)
       \<and> (ended = Inr False \<longrightarrow> length new = length ss)"
proof (induction ss arbitrary: tried0)
  case Nil
  then show ?case by auto
next
  case (Cons s rest)
  have step: "\<exists>new. tried = tried0 @ new
       \<and> map attempt_strategy new = take (length new) (s # rest)
       \<and> attempts_ok h c gc file (load_calls tried0) new
       \<and> (ended = Inr True \<longleftrightarrow> new \<noteq> [] \<and> is_loaded (last new))
       \<and> (\<forall>e. ended = Inl e \<longleftrightarrow> new \<noteq> [] \<and> last new = Threw (attempt_strategy (last new)) e)
       \<and> (\<forall>a \<in> set (butlast new). \<not> is_final a)
       \<and> (ended = Inr False \<longrightarrow> length new = length (s # rest))"
    if rec: "load_loop h c gc file rest (tried0 @ [a]) = (ended, tried)"
      and a: "attempt_strategy a = s" "\<not> is_loaded a" "\<not> is_thrown a"
        "attempt_ok h c gc file (load_calls tried0) a"
    for a
  proof -
    from Cons.IH [OF rec] obtain new where new:
      "tried = (tried0 @ [a]) @ new"
      "map attempt_strategy new = take (length new) rest"
      "attempts_ok h c gc file (load_calls (tried0 @ [a])) new"
      "ended = Inr True \<longleftrightarrow> new \<noteq> [] \<and> is_loaded (last new)"
      "\<forall>e. ended = Inl e \<longleftrightarrow> new \<noteq> [] \<and> last new = Threw (attempt_strategy (last new)) e"
      "\<forall>a \<in> set (butlast new). \<not> is_final a"
      "ended = Inr False \<longrightarrow> length new = length rest"
      by blast
    have "tried = tried0 @ (a # new)" using new(1) by simp
    moreover have "map attempt_strategy (a # new) = take (length (a # new)) (s # rest)"
      using new(2) a(1) by simp
    moreover have "attempts_ok h c gc file (load_calls tried0) (a # new)"
      using new(3) a(4) by (simp add: load_calls_append)
    moreover have "ended = Inr True \<longleftrightarrow> a # new \<noteq> [] \<and> is_loaded (last (a # new))"
      using new(4) a(2) by auto
    moreover have "\<forall>e. ended = Inl e
        \<longleftrightarrow> a # new \<noteq> [] \<and> last (a # new) = Threw (attempt_strategy (last (a # new))) e"
      using new(5) a(3) by (cases a) auto
    moreover have "\<forall>b \<in> set (butlast (a # new)). \<not> is_final b"
      using new(6) a(2,3) by (auto simp: is_final_def)
    moreover have "ended = Inr False \<longrightarrow> length (a # new) = length (s # rest)"
      using new(7) by simp
    ultimately show ?thesis by blast
  qed
  show ?case
  proof (cases "CanLoad h gc s file")
    case None
    with Cons.prems have "load_loop h c gc file rest (tried0 @ [CannotLoad s]) = (ended, tried)"
      by simp
    then show ?thesis by (rule step) (simp_all add: None)
  next
    case (Some found)
    show ?thesis
    proof (cases "GetGameInfo h found")
      case (Inl e)
      with Some Cons.prems have "ended = Inl e" "tried = tried0 @ [Threw s e]" by simp_all
      then show ?thesis
        using Some Inl by (intro exI [of _ "[Threw s e]"]) auto
    next
      case (Inr got)
      show ?thesis
      proof (cases got)
        case None
        with Some Inr Cons.prems
        have "load_loop h c gc file rest (tried0 @ [NoGameInfo s]) = (ended, tried)" by simp
        then show ?thesis by (rule step) (simp_all add: Some Inr None)
      next
        case info: (Some info)
        show ?thesis
        proof (cases "retro_load_game c (load_calls tried0) info")
          case True
          with Some Inr info Cons.prems have "ended = Inr True" "tried = tried0 @ [Loaded s info]"
            by simp_all
          then show ?thesis
            using Some Inr info True by (intro exI [of _ "[Loaded s info]"]) auto
        next
          case False
          with Some Inr info Cons.prems
          have "load_loop h c gc file rest (tried0 @ [LoadFailed s info]) = (ended, tried)"
            by simp
          then show ?thesis by (rule step) (simp_all add: Some Inr info False)
        qed
      qed
    qed
  qed
qed

section \<open>Facts about the concrete values\<close>

lemmas string_evals = SetExtensions_def Equals_def ToLower_def tolower_bits IsExtensionValid_def

lemmas double_evals = double_to_size_t_def truncate_double_def double_mul_def double_div_def
  round_to_double_def binary_exponent_def bit_length.simps pow2_def round_half_even_def

lemmas loader_evals = CStrategyUseHD_CanLoad_def CStrategyUseVFS_CanLoad_def
  CStrategyUseParentZip_CanLoad_def CStrategyEnterZip_CanLoad_def GetEffectiveRomPath_def
  GetGameInfo_def strategies_def swap_def

lemma fresh_extensions: "m_validExtensions fresh_client = [''.smc'', ''.sfc'']"
  by (simp add: fresh_client_def string_evals)

lemma fresh_vfs: "m_bAllowVFS fresh_client"
  by (simp add: fresh_client_def)

lemma mario_loop:
  "load_loop example_host example_core (fresh_client\<lparr>m_bIsInited := True\<rparr>) mario
     (strategies (m_bPreferVFS example_host)) [] = (Inr True, mario_attempts)"
  by (simp add: fresh_extensions fresh_vfs loader_evals IsExtensionValid_def Equals_def
      ToLower_def tolower_bits example_host_def example_core_def mario_def mario_attempts_def)

lemma huge_file_loop:
  "load_loop huge_file_host example_core (fresh_client\<lparr>m_bIsInited := True\<rparr>) mario
     (strategies (m_bPreferVFS huge_file_host)) []
     = (Inl bad_alloc, [Threw CStrategyUseVFS bad_alloc])"
  by (simp add: fresh_extensions fresh_vfs loader_evals IsExtensionValid_def Equals_def
      ToLower_def tolower_bits huge_file_host_def mario_def)

lemma mario_max_frames: "double_to_size_t (double_mul 60 (7679 / 128)) = Some 3599"
  by (simp add: double_evals Let_def)

lemma mario_open:
  "OpenFile example_host example_core mario fresh_client = Some (True, mario_client, mario_attempts)"
proof -
  have core: "timing_fps example_core = 7679 / 128" "retro_serialize_size example_core = 6"
    "retro_serialize example_core = (True, [17, 18])"
    "retro_get_region example_core = RETRO_REGION_NTSC"
    "timing_sample_rate example_core = 128163 / 4"
    by (simp_all add: example_core_def)
  have pr: "gameclient_property mario = []" by (simp add: mario_def)
  have "OpenFile example_host example_core mario fresh_client =
      Some (True,
        fresh_client\<lparr>m_bIsInited := True, m_bIsPlaying := True, m_frameRate := 7679 / 128,
          m_sampleRate := 128163 / 4, m_rewindBuffer := [], m_rewindSupported := True,
          m_rewindMaxFrames := 3599, m_serializeSize := 6,
          m_lastSaveState := overwrite (resize 2 (m_lastSaveState fresh_client)) [17, 18],
          m_region := RETRO_REGION_NTSC\<rparr>,
        mario_attempts)"
    by (simp add: OpenFile_def mario_loop mario_max_frames core pr Let_def)
  also have "fresh_client\<lparr>m_bIsInited := True, m_bIsPlaying := True, m_frameRate := 7679 / 128,
          m_sampleRate := 128163 / 4, m_rewindBuffer := [], m_rewindSupported := True,
          m_rewindMaxFrames := 3599, m_serializeSize := 6,
          m_lastSaveState := overwrite (resize 2 (m_lastSaveState fresh_client)) [17, 18],
          m_region := RETRO_REGION_NTSC\<rparr> = mario_client"
    by (simp add: fresh_client_def mario_client_def string_evals resize_def overwrite_def)
  finally show ?thesis .
qed

section \<open>Properties of the loader and of the player's start\<close>

text \<open>
  C4: the strategy loop of \<^verbatim>\<open>OpenFile\<close> walks the list hard disk, parent zip, VFS, enter
  zip, or VFS, enter zip, hard disk, parent zip under \<^verbatim>\<open>m_bPreferVFS\<close>: the attempts are
  an initial part of that list. The core's \<^verbatim>\<open>retro_load_game\<close> is called for a strategy
  only with the game info of a strategy whose \<^verbatim>\<open>CanLoad\<close> and \<^verbatim>\<open>GetGameInfo\<close> succeeded.
  The loop ends with a loaded game exactly when its last attempt loaded it, with an
  exception exactly when its last attempt threw it, and otherwise after all four
  strategies. An attempt that neither loaded the game nor threw, such as a
  \<^verbatim>\<open>retro_load_game\<close> that returned false, is followed by the next strategy as long as
  there is one; a load or a throw is the last attempt. When \<^verbatim>\<open>OpenFile\<close> gets past the
  check of the file's game client property, a value it returns and its attempts are those
  of the loop, it returns false after a loop that loaded nothing, and it returns nothing
  when the loop ends with an exception.
\<close>

theorem OpenFile_strategy_order:
  assumes run: "load_loop h c gc file (strategies (m_bPreferVFS h)) [] = (ended, tried)"
  shows "strategies False
           = [CStrategyUseHD, CStrategyUseParentZip, CStrategyUseVFS, CStrategyEnterZip]
     \<and> strategies True
           = [CStrategyUseVFS, CStrategyEnterZip, CStrategyUseHD, CStrategyUseParentZip]
     \<and> map attempt_strategy tried = take (length tried) (strategies (m_bPreferVFS h))
     \<and> attempts_ok h c gc file 0 tried
     \<and> (ended = Inr True \<longleftrightarrow> tried \<noteq> [] \<and> is_loaded (last tried))
     \<and> (\<forall>e. ended = Inl e
           \<longleftrightarrow> tried \<noteq> [] \<and> last tried = Threw (attempt_strategy (last tried)) e)
     \<and> (ended = Inr False \<longrightarrow> length tried = 4)
     \<and> (\<forall>i < length tried. \<not> is_final (tried ! i) \<longrightarrow> Suc i < 4 \<longrightarrow> Suc i < length tried)
     \<and> (\<forall>i < length tried. is_final (tried ! i) \<longrightarrow> Suc i = length tried)
     \<and> (gameclient_property file = [] \<or> gameclient_property file = ID h \<longrightarrow>
          gc = gc0\<lparr>m_bIsInited := True\<rparr> \<longrightarrow>
          (\<forall>r. OpenFile h c file gc0 = Some r \<longrightarrow> ended = Inr (fst r) \<and> snd (snd r) = tried)
          \<and> (ended = Inr False \<longrightarrow> OpenFile h c file gc0 = Some (False, gc, tried))
          \<and> ((\<exists>e. ended = Inl e) \<longrightarrow> OpenFile h c file gc0 = None))"
proof -
  from load_loop_props [OF run] obtain new where new: "tried = [] @ new"
       "map attempt_strategy new = take (length new) (strategies (m_bPreferVFS h))"
       "attempts_ok h c gc file (load_calls []) new"
       "ended = Inr True \<longleftrightarrow> new \<noteq> [] \<and> is_loaded (last new)"
       "\<forall>e. ended = Inl e \<longleftrightarrow> new \<noteq> [] \<and> last new = Threw (attempt_strategy (last new)) e"
       "\<forall>a \<in> set (butlast new). \<not> is_final a"
       "ended = Inr False \<longrightarrow> length new = length (strategies (m_bPreferVFS h))"
    by blast
  then have
    order: "map attempt_strategy tried = take (length tried) (strategies (m_bPreferVFS h))" and
    each: "attempts_ok h c gc file 0 tried" and
    loaded: "ended = Inr True \<longleftrightarrow> tried \<noteq> [] \<and> is_loaded (last tried)" and
    thrown: "\<forall>e. ended = Inl e
        \<longleftrightarrow> tried \<noteq> [] \<and> last tried = Threw (attempt_strategy (last tried)) e" and
    early: "\<forall>a \<in> set (butlast tried). \<not> is_final a" and
    all: "ended = Inr False \<longrightarrow> length tried = 4"
    by (simp_all add: length_strategies)
  have adv: "Suc i < length tried"
    if i: "i < length tried" "\<not> is_final (tried ! i)" "Suc i < 4" for i
  proof (cases "ended = Inr False")
    case True
    with all i(3) show ?thesis by simp
  next
    case False
    have "tried \<noteq> [] \<and> is_final (last tried)"
    proof (cases ended)
      case (Inl e)
      from thrown have "ended = Inl e
          \<longleftrightarrow> tried \<noteq> [] \<and> last tried = Threw (attempt_strategy (last tried)) e"
        by blast
      with Inl have "tried \<noteq> []" "last tried = Threw (attempt_strategy (last tried)) e"
        by simp_all
      then have "tried \<noteq> []" "is_thrown (last tried)"
        by (simp, metis is_thrown.simps(1))
      then show ?thesis by (simp add: is_final_def)
    next
      case (Inr b)
      with False have "ended = Inr True" by simp
      with loaded show ?thesis by (simp add: is_final_def)
    qed
    then have "tried ! i \<noteq> last tried" and "tried \<noteq> []" using i(2) by auto
    then have "i \<noteq> length tried - 1" by (auto simp: last_conv_nth)
    with i(1) show ?thesis by simp
  qed
  have fin: "Suc i = length tried" if i: "i < length tried" "is_final (tried ! i)" for i
  proof (rule ccontr)
    assume "Suc i \<noteq> length tried"
    with i(1) have "i < length (butlast tried)" by simp
    then have "tried ! i \<in> set (butlast tried)"
      by (metis nth_butlast nth_mem)
    with early i(2) show False by blast
  qed
  have opn: "(\<forall>r. OpenFile h c file gc0 = Some r \<longrightarrow> ended = Inr (fst r) \<and> snd (snd r) = tried)
      \<and> (ended = Inr False \<longrightarrow> OpenFile h c file gc0 = Some (False, gc, tried))
      \<and> ((\<exists>e. ended = Inl e) \<longrightarrow> OpenFile h c file gc0 = None)"
    if "gameclient_property file = [] \<or> gameclient_property file = ID h"
      "gc = gc0\<lparr>m_bIsInited := True\<rparr>"
  proof -
    have l: "load_loop h c (gc0\<lparr>m_bIsInited := True\<rparr>) file (strategies (m_bPreferVFS h)) []
        = (ended, tried)"
      using run that(2) by simp
    show ?thesis
    proof (cases ended)
      case (Inl e)
      then show ?thesis using that by (auto simp: OpenFile_def l Let_def)
    next
      case (Inr success)
      then show ?thesis
        using that
        by (cases success; cases "retro_serialize_size c = 0")
           (auto simp: OpenFile_def l Let_def split: option.splits)
    qed
  qed
  show ?thesis
  proof (intro conjI)
    show "\<forall>i < length tried. \<not> is_final (tried ! i) \<longrightarrow> Suc i < 4 \<longrightarrow> Suc i < length tried"
      using adv by blast
    show "\<forall>i < length tried. is_final (tried ! i) \<longrightarrow> Suc i = length tried"
      using fin by blast
    show "gameclient_property file = [] \<or> gameclient_property file = ID h \<longrightarrow>
          gc = gc0\<lparr>m_bIsInited := True\<rparr> \<longrightarrow>
          (\<forall>r. OpenFile h c file gc0 = Some r \<longrightarrow> ended = Inr (fst r) \<and> snd (snd r) = tried)
          \<and> (ended = Inr False \<longrightarrow> OpenFile h c file gc0 = Some (False, gc, tried))
          \<and> ((\<exists>e. ended = Inl e) \<longrightarrow> OpenFile h c file gc0 = None)"
      using opn by blast
    show "\<forall>e. ended = Inl e
           \<longleftrightarrow> tried \<noteq> [] \<and> last tried = Threw (attempt_strategy (last tried)) e"
      using thrown .
  qed (use order each loaded all strategies_False strategies_True in \<open>simp_all\<close>)
qed

theorem OpenFile_strategy_order_witness:
  "load_loop example_host example_core (fresh_client\<lparr>m_bIsInited := True\<rparr>) mario
     (strategies (m_bPreferVFS example_host)) [] = (Inr True, mario_attempts)
   \<and> map attempt_strategy mario_attempts
       = [CStrategyUseHD, CStrategyUseParentZip, CStrategyUseVFS]
   \<and> attempts_ok example_host example_core (fresh_client\<lparr>m_bIsInited := True\<rparr>) mario 0
         mario_attempts
   \<and> is_loaded (last mario_attempts)
   \<and> gameclient_property mario = []
   \<and> map_option fst (OpenFile example_host example_core mario fresh_client) = Some True
   \<and> map_option (snd \<circ> snd) (OpenFile example_host example_core mario fresh_client)
       = Some mario_attempts
   \<and> load_loop huge_file_host example_core (fresh_client\<lparr>m_bIsInited := True\<rparr>) mario
       (strategies (m_bPreferVFS huge_file_host)) []
       = (Inl bad_alloc, [Threw CStrategyUseVFS bad_alloc])
   \<and> attempts_ok huge_file_host example_core (fresh_client\<lparr>m_bIsInited := True\<rparr>) mario 0
       [Threw CStrategyUseVFS bad_alloc]
   \<and> OpenFile huge_file_host example_core mario fresh_client = None"
proof -
  note th = OpenFile_strategy_order [OF mario_loop, of fresh_client]
  note th' = OpenFile_strategy_order [OF huge_file_loop, of fresh_client]
  have "map attempt_strategy mario_attempts
      = take (length mario_attempts) (strategies (m_bPreferVFS example_host))"
    using th by blast
  then have "map attempt_strategy mario_attempts
      = [CStrategyUseHD, CStrategyUseParentZip, CStrategyUseVFS]"
    by (simp add: mario_attempts_def example_host_def strategies_False)
  moreover have "attempts_ok example_host example_core (fresh_client\<lparr>m_bIsInited := True\<rparr>)
      mario 0 mario_attempts"
    using th by blast
  moreover have "is_loaded (last mario_attempts)"
    using th by blast
  moreover have pr: "gameclient_property mario = []" by (simp add: mario_def)
  moreover have "Inr True = (Inr (fst r) :: exception + bool) \<and> snd (snd r) = mario_attempts"
    if "OpenFile example_host example_core mario fresh_client = Some r" for r
    using th pr that by blast
  then have "map_option fst (OpenFile example_host example_core mario fresh_client) = Some True"
    "map_option (snd \<circ> snd) (OpenFile example_host example_core mario fresh_client)
       = Some mario_attempts"
    by (simp_all add: mario_open)
  moreover have "attempts_ok huge_file_host example_core (fresh_client\<lparr>m_bIsInited := True\<rparr>)
      mario 0 [Threw CStrategyUseVFS bad_alloc]"
    using th' by blast
  moreover have "OpenFile huge_file_host example_core mario fresh_client = None"
    using th' pr by blast
  ultimately show ?thesis using mario_loop huge_file_loop by simp
qed

text \<open>
  Facts for C5: every stored extension is dotted, so the dotless \<^verbatim>\<open>"zip"\<close> that
  \<^verbatim>\<open>CStrategyUseParentZip::CanLoad\<close> asks \<^verbatim>\<open>IsExtensionValid\<close> about is accepted only by a
  client with no extensions at all.
\<close>

lemma SetExtensions_loop_dotted:
  "list_all dotted valid \<Longrightarrow> list_all dotted (SetExtensions_loop allowZip pieces valid)"
proof (induction pieces arbitrary: valid)
  case Nil
  then show ?case by simp
next
  case (Cons it rest)
  have "list_all dotted (valid @ [''.'' @ ToLower it])"
    using Cons.prems by simp
  with Cons show ?case by (auto simp: Let_def)
qed

lemma SetExtensions_dotted: "list_all dotted (SetExtensions allowZip s)"
  by (simp add: SetExtensions_def SetExtensions_loop_dotted)

lemma zip_without_dot_never_listed:
  "IsExtensionValid (SetExtensions allowZip s) ''zip'' \<longleftrightarrow> SetExtensions allowZip s = []"
proof -
  have "ToLower ''zip'' = ''zip''" by (simp add: ToLower_def tolower_bits)
  moreover have "''zip'' \<notin> set (SetExtensions allowZip s)"
  proof
    assume "''zip'' \<in> set (SetExtensions allowZip s)"
    moreover have "\<forall>e \<in> set (SetExtensions allowZip s). dotted e"
      using SetExtensions_dotted [of allowZip s] by (simp add: list_all_iff)
    ultimately have "dotted ''zip''" by blast
    then show False by simp
  qed
  ultimately show ?thesis by (simp add: IsExtensionValid_def)
qed

lemma parent_zip_needs_empty_list:
  "m_validExtensions gc = SetExtensions allowZip s \<Longrightarrow>
     CStrategyUseParentZip_CanLoad gc file = Some found \<Longrightarrow> m_validExtensions gc = []"
  by (auto simp: CStrategyUseParentZip_CanLoad_def zip_without_dot_never_listed split: if_splits)

text \<open>
  C5: a core that lists \<^verbatim>\<open>zip\<close>, with zip allowed by the settings, accepts the extension
  \<^verbatim>\<open>.zip\<close>; for a file in the root of a local zip the parent zip strategy still says no.
\<close>

theorem parent_zip_rejected_for_zip_core:
  "m_validExtensions zip_client = [''.nes'', ''.zip'']
   \<and> IsExtensionValid (m_validExtensions zip_client) ''.zip''
   \<and> IsInZIP game_in_zip
   \<and> parentURL_GetFileName game_in_zip = []
   \<and> parentURL_GetProtocol game_in_zip = []
   \<and> CStrategyUseParentZip_CanLoad zip_client game_in_zip = None"
proof -
  have e: "m_validExtensions zip_client = [''.nes'', ''.zip'']"
    by (simp add: zip_client_def string_evals)
  show ?thesis
    by (simp add: e game_in_zip_def CStrategyUseParentZip_CanLoad_def IsExtensionValid_def
        ToLower_def tolower_bits)
qed

text \<open>
  C6, as the code has it: after a successful \<^verbatim>\<open>OpenFile\<close> with a core whose serialize size
  is not 0, \<^verbatim>\<open>m_rewindMaxFrames\<close> is the double product \<^verbatim>\<open>60.0 * fps\<close> truncated toward
  zero. It lies less than 1 below a product that is not negative, and where the product
  is exact it is the floor of \<open>60 * fps\<close>. Rewind is then supported and the ring empty.
\<close>

theorem OpenFile_rewind_max_frames:
  assumes opened: "OpenFile h c file gc = Some (True, gc', tried)"
    and size: "retro_serialize_size c \<noteq> 0"
  shows "double_to_size_t (double_mul 60 (timing_fps c)) = Some (m_rewindMaxFrames gc')
     \<and> int (m_rewindMaxFrames gc') = truncate_double (double_mul 60 (timing_fps c))
     \<and> (0 \<le> double_mul 60 (timing_fps c) \<longrightarrow>
          real (m_rewindMaxFrames gc') \<le> double_mul 60 (timing_fps c)
          \<and> double_mul 60 (timing_fps c) < real (m_rewindMaxFrames gc') + 1)
     \<and> (0 \<le> timing_fps c \<longrightarrow> round_to_double (60 * timing_fps c) = 60 * timing_fps c \<longrightarrow>
          m_rewindMaxFrames gc' = nat \<lfloor>60 * timing_fps c\<rfloor>)
     \<and> m_rewindSupported gc' \<and> m_frameRate gc' = timing_fps c \<and> m_rewindBuffer gc' = []"
proof -
  let ?p = "double_mul 60 (timing_fps c)"
  from opened size obtain m where m: "double_to_size_t ?p = Some m"
    and gc': "m_rewindMaxFrames gc' = m" "m_rewindSupported gc'" "m_frameRate gc' = timing_fps c"
      "m_rewindBuffer gc' = []"
    by (auto simp: OpenFile_def Let_def split: if_splits option.splits prod.splits sum.splits)
  from m have t: "int m = truncate_double ?p" "0 \<le> truncate_double ?p"
    by (auto simp: double_to_size_t_def Let_def split: if_splits)
  have fl: "real m \<le> ?p \<and> ?p < real m + 1" if "0 \<le> ?p"
  proof -
    from that t have "int m = \<lfloor>?p\<rfloor>" by (simp add: truncate_double_def)
    then show ?thesis by linarith
  qed
  have ex: "m = nat \<lfloor>60 * timing_fps c\<rfloor>"
    if "0 \<le> timing_fps c" "round_to_double (60 * timing_fps c) = 60 * timing_fps c"
  proof -
    from that have p: "?p = 60 * timing_fps c" "0 \<le> ?p" by (simp_all add: double_mul_def)
    with t have "int m = \<lfloor>60 * timing_fps c\<rfloor>" by (simp add: truncate_double_def)
    then show ?thesis by simp
  qed
  show ?thesis using m gc' t fl ex by simp
qed

theorem OpenFile_rewind_max_frames_witness:
  "OpenFile example_host example_core mario fresh_client = Some (True, mario_client, mario_attempts)
   \<and> retro_serialize_size example_core \<noteq> 0
   \<and> 0 \<le> double_mul 60 (timing_fps example_core)
   \<and> 0 \<le> timing_fps example_core
   \<and> round_to_double (60 * timing_fps example_core) = 60 * timing_fps example_core
   \<and> m_rewindMaxFrames mario_client = nat \<lfloor>60 * timing_fps example_core\<rfloor>
   \<and> real (m_rewindMaxFrames mario_client) \<le> double_mul 60 (timing_fps example_core)
   \<and> double_mul 60 (timing_fps example_core) < real (m_rewindMaxFrames mario_client) + 1"
proof -
  have size: "retro_serialize_size example_core \<noteq> 0" by (simp add: example_core_def)
  have fps: "timing_fps example_core = 7679 / 128" by (simp add: example_core_def)
  have p: "double_mul 60 (7679 / 128) = 115185 / 32"
    by (simp add: double_evals Let_def)
  have r: "round_to_double (115185 / 32) = 115185 / 32"
    using p by (simp add: double_mul_def)
  show ?thesis
    using OpenFile_rewind_max_frames [OF mario_open size] size
    by (simp add: mario_open fps p r)
qed

text \<open>
  C6 as stated fails: a core that reports 59.9921875 frames a second gets 3599 frames,
  and \<open>60 * 59.9921875 = 3599.53125\<close> rounds to 3600.
\<close>

theorem OpenFile_max_frames_truncated:
  "OpenFile example_host example_core mario fresh_client = Some (True, mario_client, mario_attempts)
   \<and> retro_serialize_size example_core = 6
   \<and> timing_fps example_core = 7679 / 128
   \<and> m_rewindMaxFrames mario_client = 3599
   \<and> round (60 * timing_fps example_core) = 3600
   \<and> int (m_rewindMaxFrames mario_client) \<noteq> round (60 * timing_fps example_core)"
  by (simp add: mario_open) (simp add: example_core_def mario_client_def round_def)

text \<open>
  C7, as the code has it: a sample rate below 1 or above 384000 starts no audio and leaves
  the frame rate (60 when the client's is outside 5 to 100) as it is; any other sample
  rate starts audio at the rate truncated to an integer, and when the rate was not an
  integer the frame rate is multiplied by the quotient of the new and the old rate, in
  double arithmetic.
\<close>

theorem Process_rate_alignment:
  "(m_sampleRate gc < 1 \<or> 384000 < m_sampleRate gc \<longrightarrow>
      audio_GoForth (Process gc) = None
      \<and> video_GoForth (Process gc)
          = (if m_frameRate gc < 5 \<or> 100 < m_frameRate gc then 60 else m_frameRate gc))
   \<and> (1 \<le> m_sampleRate gc \<and> m_sampleRate gc \<le> 384000 \<longrightarrow>
      audio_GoForth (Process gc) = Some \<lfloor>m_sampleRate gc\<rfloor>
      \<and> 1 \<le> \<lfloor>m_sampleRate gc\<rfloor> \<and> \<lfloor>m_sampleRate gc\<rfloor> \<le> 384000
      \<and> video_GoForth (Process gc)
          = (if of_int \<lfloor>m_sampleRate gc\<rfloor> = m_sampleRate gc
             then (if m_frameRate gc < 5 \<or> 100 < m_frameRate gc then 60 else m_frameRate gc)
             else double_mul (if m_frameRate gc < 5 \<or> 100 < m_frameRate gc then 60 else m_frameRate gc)
                    (double_div (of_int \<lfloor>m_sampleRate gc\<rfloor>) (m_sampleRate gc))))"
proof (intro conjI impI)
  assume "m_sampleRate gc < 1 \<or> 384000 < m_sampleRate gc"
  then show "audio_GoForth (Process gc) = None"
    "video_GoForth (Process gc)
       = (if m_frameRate gc < 5 \<or> 100 < m_frameRate gc then 60 else m_frameRate gc)"
    by (auto simp: Process_def Let_def)
next
  assume sr: "1 \<le> m_sampleRate gc \<and> m_sampleRate gc \<le> 384000"
  then have tr: "truncate_double (m_sampleRate gc) = \<lfloor>m_sampleRate gc\<rfloor>"
    by (simp add: truncate_double_def)
  from sr show "1 \<le> \<lfloor>m_sampleRate gc\<rfloor>" by linarith
  from sr show "\<lfloor>m_sampleRate gc\<rfloor> \<le> 384000" by linarith
  from sr tr show "audio_GoForth (Process gc) = Some \<lfloor>m_sampleRate gc\<rfloor>"
    by (auto simp: Process_def Let_def)
  from sr tr show "video_GoForth (Process gc)
          = (if of_int \<lfloor>m_sampleRate gc\<rfloor> = m_sampleRate gc
             then (if m_frameRate gc < 5 \<or> 100 < m_frameRate gc then 60 else m_frameRate gc)
             else double_mul (if m_frameRate gc < 5 \<or> 100 < m_frameRate gc then 60 else m_frameRate gc)
                    (double_div (of_int \<lfloor>m_sampleRate gc\<rfloor>) (m_sampleRate gc)))"
    by (auto simp: Process_def Let_def)
qed

theorem Process_rate_alignment_witness:
  "1 \<le> m_sampleRate mario_client \<and> m_sampleRate mario_client \<le> 384000
   \<and> audio_GoForth (Process mario_client) = Some 32040
   \<and> video_GoForth (Process mario_client)
       = double_mul (7679 / 128) (double_div 32040 (128163 / 4))
   \<and> m_sampleRate half_rate_client < 1
   \<and> audio_GoForth (Process half_rate_client) = None
   \<and> video_GoForth (Process half_rate_client) = 7679 / 128"
  using Process_rate_alignment [of mario_client] Process_rate_alignment [of half_rate_client]
  by (simp add: mario_client_def half_rate_client_def)

text \<open>
  C7 as stated fails twice: 32040.75 is cut to 32040 where the nearest integer is 32041,
  and a rate of 0.5, which is neither \<open>\<le> 0\<close> nor \<open>> 384000\<close>, starts no audio.
\<close>

theorem Process_rate_not_nearest:
  "m_sampleRate mario_client = 128163 / 4
   \<and> audio_GoForth (Process mario_client) = Some 32040
   \<and> round (m_sampleRate mario_client) = 32041
   \<and> audio_GoForth (Process mario_client) \<noteq> Some (round (m_sampleRate mario_client))
   \<and> 0 < m_sampleRate half_rate_client \<and> m_sampleRate half_rate_client \<le> 384000
   \<and> audio_GoForth (Process half_rate_client) = None"
  by (simp add: Process_def mario_client_def half_rate_client_def truncate_double_def round_def)

section \<open>Properties of the environment callback\<close>

lemma notify_variables_checked: "notify_variables vars eff \<noteq> NullDereference"
  by (induction vars eff rule: notify_variables.induct) (auto simp: Log_def)

lemma notify_descriptors_checked: "notify_descriptors ds eff \<noteq> NullDereference"
  by (induction ds eff rule: notify_descriptors.induct) (auto simp: Log_def)

lemma callback_checks_fields:
  assumes "SetPixelFormat_installed host" and "SetKeyboardCallback_installed host"
  shows "EnvironmentCallback host cmd (Some p) \<noteq> NullDereference"
proof (cases cmd)
  case RETRO_ENVIRONMENT_GET_VARIABLE
  then show ?thesis
    by (cases p) (auto simp: EnvironmentCallback_def Log_def)
next
  case RETRO_ENVIRONMENT_SET_VARIABLES
  then show ?thesis
    by (cases p)
       (auto simp: EnvironmentCallback_def Log_def notify_variables_checked split: list.splits)
next
  case RETRO_ENVIRONMENT_SET_INPUT_DESCRIPTORS
  then show ?thesis
    by (cases p)
       (auto simp: EnvironmentCallback_def Log_def notify_descriptors_checked split: list.splits)
next
  case RETRO_ENVIRONMENT_SET_PIXEL_FORMAT
  then show ?thesis
    using assms
    by (cases p)
       (auto simp: EnvironmentCallback_def Log_def Let_def split: retro_pixel_format.splits)
next
  case RETRO_ENVIRONMENT_SET_KEYBOARD_CALLBACK
  then show ?thesis
    using assms
    by (cases p) (auto simp: EnvironmentCallback_def Log_def split: option.splits)
qed (cases p; simp add: EnvironmentCallback_def Log_def)+

lemma callback_null_payload:
  assumes "cmd \<noteq> RETRO_ENVIRONMENT_SHUTDOWN" and "cmd \<noteq> RETRO_ENVIRONMENT_GET_SYSTEM_DIRECTORY"
  shows "EnvironmentCallback host cmd None
           = Returned False ((untouched None)\<lparr>env_logged := [LOGERROR]\<rparr>)"
  using assms by (simp add: EnvironmentCallback_def Log_def untouched_def)

text \<open>
  C8, as the code has it: for every query but \<^verbatim>\<open>SHUTDOWN\<close> and \<^verbatim>\<open>GET_SYSTEM_DIRECTORY\<close>, a
  call with a null payload returns false, touches nothing and logs one error. With a
  payload and the hooks installed no call goes through a null pointer, whatever the field
  pointers are. A null field pointer does not make the call return false: a variable
  without key or value, a variable or descriptor array that starts with a null key or
  description, a message without text and a null keyboard callback all return true.
\<close>

theorem EnvironmentCallback_null_checks:
  "(cmd \<noteq> RETRO_ENVIRONMENT_SHUTDOWN \<and> cmd \<noteq> RETRO_ENVIRONMENT_GET_SYSTEM_DIRECTORY \<longrightarrow>
      EnvironmentCallback host cmd None
        = Returned False ((untouched None)\<lparr>env_logged := [LOGERROR]\<rparr>))
   \<and> (SetPixelFormat_installed host \<and> SetKeyboardCallback_installed host \<longrightarrow>
        EnvironmentCallback host cmd (Some p) \<noteq> NullDereference)
   \<and> (var_key var = None \<or> var_value var = None \<longrightarrow>
        EnvironmentCallback host RETRO_ENVIRONMENT_GET_VARIABLE (Some (Variable_at var))
          = Returned True
              ((untouched (Some (Variable_at (var\<lparr>var_value := None\<rparr>))))
                 \<lparr>env_logged := [LOGERROR]\<rparr>))
   \<and> (var_key v = None \<longrightarrow>
        EnvironmentCallback host RETRO_ENVIRONMENT_SET_VARIABLES (Some (Variables_at (v # vars)))
          = Returned True
              ((untouched (Some (Variables_at (v # vars))))\<lparr>env_logged := [LOGERROR]\<rparr>))
   \<and> (description d = None \<longrightarrow>
        EnvironmentCallback host RETRO_ENVIRONMENT_SET_INPUT_DESCRIPTORS
            (Some (InputDescriptors_at (d # ds)))
          = Returned True
              ((untouched (Some (InputDescriptors_at (d # ds))))\<lparr>env_logged := [LOGERROR]\<rparr>))
   \<and> (message_msg m = None \<longrightarrow>
        EnvironmentCallback host RETRO_ENVIRONMENT_SET_MESSAGE (Some (Message_at m))
          = Returned True (untouched (Some (Message_at m))))
   \<and> EnvironmentCallback host RETRO_ENVIRONMENT_SET_KEYBOARD_CALLBACK
         (Some (KeyboardCallback_at None))
       = Returned True (untouched (Some (KeyboardCallback_at None)))"
proof (intro conjI impI)
  assume "cmd \<noteq> RETRO_ENVIRONMENT_SHUTDOWN \<and> cmd \<noteq> RETRO_ENVIRONMENT_GET_SYSTEM_DIRECTORY"
  then show "EnvironmentCallback host cmd None
      = Returned False ((untouched None)\<lparr>env_logged := [LOGERROR]\<rparr>)"
    by (simp add: callback_null_payload)
next
  assume "SetPixelFormat_installed host \<and> SetKeyboardCallback_installed host"
  then show "EnvironmentCallback host cmd (Some p) \<noteq> NullDereference"
    by (simp add: callback_checks_fields)
next
  assume "var_key var = None \<or> var_value var = None"
  then show "EnvironmentCallback host RETRO_ENVIRONMENT_GET_VARIABLE (Some (Variable_at var))
      = Returned True
          ((untouched (Some (Variable_at (var\<lparr>var_value := None\<rparr>))))\<lparr>env_logged := [LOGERROR]\<rparr>)"
    by (auto simp: EnvironmentCallback_def Log_def untouched_def)
next
  assume "var_key v = None"
  then show "EnvironmentCallback host RETRO_ENVIRONMENT_SET_VARIABLES (Some (Variables_at (v # vars)))
      = Returned True ((untouched (Some (Variables_at (v # vars))))\<lparr>env_logged := [LOGERROR]\<rparr>)"
    by (simp add: EnvironmentCallback_def Log_def untouched_def)
next
  assume "description d = None"
  then show "EnvironmentCallback host RETRO_ENVIRONMENT_SET_INPUT_DESCRIPTORS
        (Some (InputDescriptors_at (d # ds)))
      = Returned True
          ((untouched (Some (InputDescriptors_at (d # ds))))\<lparr>env_logged := [LOGERROR]\<rparr>)"
    by (simp add: EnvironmentCallback_def Log_def untouched_def)
next
  assume "message_msg m = None"
  then show "EnvironmentCallback host RETRO_ENVIRONMENT_SET_MESSAGE (Some (Message_at m))
      = Returned True (untouched (Some (Message_at m)))"
    by (simp add: EnvironmentCallback_def)
next
  show "EnvironmentCallback host RETRO_ENVIRONMENT_SET_KEYBOARD_CALLBACK
         (Some (KeyboardCallback_at None))
       = Returned True (untouched (Some (KeyboardCallback_at None)))"
    by (simp add: EnvironmentCallback_def)
qed

theorem EnvironmentCallback_null_checks_witness:
  "RETRO_ENVIRONMENT_GET_VARIABLE \<noteq> RETRO_ENVIRONMENT_SHUTDOWN
   \<and> RETRO_ENVIRONMENT_GET_VARIABLE \<noteq> RETRO_ENVIRONMENT_GET_SYSTEM_DIRECTORY
   \<and> EnvironmentCallback retroplayer_host RETRO_ENVIRONMENT_GET_VARIABLE None
       = Returned False
           \<lparr>data_after = None, SetPixelFormat_calls = [], SetKeyboardCallback_calls = [],
            StopPlaying_calls = 0, env_logged = [LOGERROR]\<rparr>
   \<and> SetPixelFormat_installed retroplayer_host \<and> SetKeyboardCallback_installed retroplayer_host
   \<and> EnvironmentCallback retroplayer_host RETRO_ENVIRONMENT_GET_VARIABLE
         (Some (Variable_at nameless_variable)) \<noteq> NullDereference
   \<and> var_key nameless_variable = None
   \<and> EnvironmentCallback retroplayer_host RETRO_ENVIRONMENT_GET_VARIABLE
         (Some (Variable_at nameless_variable))
       = Returned True
           \<lparr>data_after = Some (Variable_at \<lparr>var_key = None, var_value = None\<rparr>),
            SetPixelFormat_calls = [], SetKeyboardCallback_calls = [],
            StopPlaying_calls = 0, env_logged = [LOGERROR]\<rparr>
   \<and> message_msg \<lparr>message_msg = None, message_frames = 60\<rparr> = None
   \<and> EnvironmentCallback retroplayer_host RETRO_ENVIRONMENT_SET_MESSAGE
         (Some (Message_at \<lparr>message_msg = None, message_frames = 60\<rparr>))
       = Returned True (untouched (Some (Message_at \<lparr>message_msg = None, message_frames = 60\<rparr>)))"
  using EnvironmentCallback_null_checks [of RETRO_ENVIRONMENT_GET_VARIABLE retroplayer_host
      "Variable_at nameless_variable" nameless_variable nameless_variable "[]"
      "\<lparr>desc_port = 0, desc_device = 0, desc_index = 0, desc_id = 0, description = None\<rparr>" "[]"
      "\<lparr>message_msg = None, message_frames = 60\<rparr>"]
  by (simp add: retroplayer_host_def nameless_variable_def untouched_def)

text \<open>
  C8 as stated fails: \<^verbatim>\<open>GET_SYSTEM_DIRECTORY\<close> with a null payload writes through the null
  pointer, and \<^verbatim>\<open>GET_VARIABLE\<close> for a variable with a null key returns true after clearing
  the variable's value.
\<close>

theorem EnvironmentCallback_null_payload_dereferenced:
  "EnvironmentCallback retroplayer_host RETRO_ENVIRONMENT_GET_SYSTEM_DIRECTORY None
     = NullDereference
   \<and> EnvironmentCallback retroplayer_host RETRO_ENVIRONMENT_GET_VARIABLE
         (Some (Variable_at nameless_variable))
       = Returned True
           \<lparr>data_after = Some (Variable_at \<lparr>var_key = None, var_value = None\<rparr>),
            SetPixelFormat_calls = [], SetKeyboardCallback_calls = [],
            StopPlaying_calls = 0, env_logged = [LOGERROR]\<rparr>
   \<and> EnvironmentCallback retroplayer_host RETRO_ENVIRONMENT_GET_VARIABLE
         (Some (Variable_at nameless_variable))
       \<noteq> Returned False (untouched (Some (Variable_at nameless_variable)))"
  by (simp add: EnvironmentCallback_def Log_def untouched_def nameless_variable_def)

end
